theory Spec2Isabelle
  imports Complex_Main
begin

section \<open>ani-web: the client-side behaviour scripts\<close>

text \<open>
  A shallow embedding of \<^verbatim>\<open>static/page-behavior.js\<close> (the playback controller and the
  watchlist) and of the autocomplete script. Each handler of the scripts is a function
  on an explicit state; an exception a handler can raise is a value of \<open>error\<close>.
  Strings are Isabelle strings, read as UTF-8 text; the numbers of the media element are
  reals (the arithmetic of doubles idealised as exact), with \<open>NaN\<close> kept apart.
\<close>

datatype error = SyntaxError | TypeError

subsection \<open>The platform: JSON text\<close>

text \<open>
  \<^verbatim>\<open>JSON.parse\<close> and \<^verbatim>\<open>JSON.stringify\<close> are built into the browser; the watchlist reads and
  writes its storage through them, so they are modelled here, from the JSON grammar.
  A decoded value keeps a number as its literal and an object as its members in source
  order: the scripts compare watchlist entries with strings only. Where a stored array
  holds a number, the browser writes it back as the shortest text of the double
  (\<^verbatim>\<open>1.0\<close> as \<^verbatim>\<open>1\<close>) and this model as the literal it was read from; the two texts denote
  the same number, and the properties below are on arrays of strings, which is what the
  watchlist script builds. \<open>JUndefined\<close> is the value \<^verbatim>\<open>undefined\<close>, which \<^verbatim>\<open>JSON.parse\<close>
  never returns and \<^verbatim>\<open>JSON.stringify\<close> writes as \<^verbatim>\<open>null\<close> inside an array.
\<close>

datatype jsval =
    JUndefined
  | JNull
  | JBool bool
  | JNum string
  | JStr string
  | JArr "jsval list"
  | JObj "(string \<times> jsval) list"

text \<open>Whitespace of the grammar: space, tab, line feed, carriage return.\<close>

definition is_ws :: "char \<Rightarrow> bool" where
  "is_ws c = (c = CHR 0x20 \<or> c = CHR 0x09 \<or> c = CHR 0x0A \<or> c = CHR 0x0D)"

definition skip_ws :: "string \<Rightarrow> string" where
  "skip_ws = dropWhile is_ws"

definition is_digit :: "char \<Rightarrow> bool" where
  "is_digit c = (48 \<le> (of_char c :: nat) \<and> (of_char c :: nat) \<le> 57)"

text \<open>
  String literals. \<open>parse_chars\<close> reads the characters after the opening quote up to the
  closing one: a raw character (no control character below \<open>0x20\<close>), a two-character
  escape, or a \<open>u\<close> escape of four hexadecimal digits, whose code point is written
  back as UTF-8 (a high surrogate followed by an escaped low surrogate is one code
  point).
\<close>

definition hex_val :: "char \<Rightarrow> nat option" where
  "hex_val c = (let n = (of_char c :: nat) in
     if 48 \<le> n \<and> n \<le> 57 then Some (n - 48)
     else if 97 \<le> n \<and> n \<le> 102 then Some (n - 87)
     else if 65 \<le> n \<and> n \<le> 70 then Some (n - 55)
     else None)"

definition hex4 :: "char \<Rightarrow> char \<Rightarrow> char \<Rightarrow> char \<Rightarrow> nat option" where
  "hex4 a b c d =
     (case (hex_val a, hex_val b, hex_val c, hex_val d) of
        (Some x, Some y, Some z, Some w) \<Rightarrow> Some (4096 * x + 256 * y + 16 * z + w)
      | _ \<Rightarrow> None)"

definition utf8 :: "nat \<Rightarrow> string" where
  "utf8 n =
     (if n < 0x80 then [char_of n]
      else if n < 0x800 then [char_of (0xC0 + n div 64), char_of (0x80 + n mod 64)]
      else if n < 0x10000 then
        [char_of (0xE0 + n div 4096), char_of (0x80 + n div 64 mod 64), char_of (0x80 + n mod 64)]
      else
        [char_of (0xF0 + n div 262144), char_of (0x80 + n div 4096 mod 64),
         char_of (0x80 + n div 64 mod 64), char_of (0x80 + n mod 64)])"

definition escape_char :: "char \<Rightarrow> char option" where
  "escape_char e =
     (if e = CHR 0x22 \<or> e = CHR 0x5C \<or> e = CHR ''/'' then Some e
      else if e = CHR ''b'' then Some (CHR 0x08)
      else if e = CHR ''f'' then Some (CHR 0x0C)
      else if e = CHR ''n'' then Some (CHR 0x0A)
      else if e = CHR ''r'' then Some (CHR 0x0D)
      else if e = CHR ''t'' then Some (CHR 0x09)
      else None)"

definition low_surrogate :: "string \<Rightarrow> nat option" where
  "low_surrogate s =
     (case s of
        b # u # h1 # h2 # h3 # h4 # r \<Rightarrow>
          if b = CHR 0x5C \<and> u = CHR ''u'' then
            (case hex4 h1 h2 h3 h4 of
               Some m \<Rightarrow> if 0xDC00 \<le> m \<and> m \<le> 0xDFFF then Some m else None
             | None \<Rightarrow> None)
          else None
      | _ \<Rightarrow> None)"

fun parse_chars :: "string \<Rightarrow> (string \<times> string) option" where
  "parse_chars [] = None"
| "parse_chars (c # cs) =
     (if c = CHR 0x22 then Some ([], cs)
      else if c = CHR 0x5C then
        (case cs of
           [] \<Rightarrow> None
         | e # r \<Rightarrow>
             if e = CHR ''u'' then
               (case r of
                  h1 # h2 # h3 # h4 # r' \<Rightarrow>
                    (case hex4 h1 h2 h3 h4 of
                       None \<Rightarrow> None
                     | Some n \<Rightarrow>
                         (case (if 0xD800 \<le> n \<and> n \<le> 0xDBFF then low_surrogate r' else None) of
                            Some m \<Rightarrow>
                              map_option (\<lambda>(s, t). (utf8 (0x10000 + (n - 0xD800) * 0x400 + (m - 0xDC00)) @ s, t))
                                (parse_chars (drop 6 r'))
                          | None \<Rightarrow> map_option (\<lambda>(s, t). (utf8 n @ s, t)) (parse_chars r')))
                | _ \<Rightarrow> None)
             else
               (case escape_char e of
                  None \<Rightarrow> None
                | Some x \<Rightarrow> map_option (\<lambda>(s, t). (x # s, t)) (parse_chars r)))
      else if (of_char c :: nat) < 0x20 then None
      else map_option (\<lambda>(s, t). (c # s, t)) (parse_chars cs))"

text \<open>
  Number literals: an optional minus sign, an integer part without a leading zero, an
  optional fraction and an optional exponent. The literal is kept as it is written.
\<close>

definition parse_digits :: "string \<Rightarrow> (string \<times> string) option" where
  "parse_digits s = (if takeWhile is_digit s = [] then None
                     else Some (takeWhile is_digit s, dropWhile is_digit s))"

definition parse_int :: "string \<Rightarrow> (string \<times> string) option" where
  "parse_int s =
     (case s of
        [] \<Rightarrow> None
      | c # r \<Rightarrow> if c = CHR ''0'' then Some (''0'', r) else parse_digits s)"

definition parse_frac :: "string \<Rightarrow> (string \<times> string) option" where
  "parse_frac s =
     (case s of
        [] \<Rightarrow> Some ([], s)
      | c # r \<Rightarrow>
          if c = CHR ''.'' then map_option (\<lambda>(d, t). (c # d, t)) (parse_digits r)
          else Some ([], s))"

definition parse_exp :: "string \<Rightarrow> (string \<times> string) option" where
  "parse_exp s =
     (case s of
        [] \<Rightarrow> Some ([], s)
      | c # r \<Rightarrow>
          if c = CHR ''e'' \<or> c = CHR ''E'' then
            (case r of
               [] \<Rightarrow> None
             | g # r' \<Rightarrow>
                 if g = CHR ''+'' \<or> g = CHR ''-''
                 then map_option (\<lambda>(d, t). (c # g # d, t)) (parse_digits r')
                 else map_option (\<lambda>(d, t). (c # d, t)) (parse_digits r))
          else Some ([], s))"

definition parse_number :: "string \<Rightarrow> (string \<times> string) option" where
  "parse_number s =
     (let (sign, s0) = (case s of [] \<Rightarrow> ([], s) | c # r \<Rightarrow> if c = CHR ''-'' then ([c], r) else ([], s))
      in case parse_int s0 of
           None \<Rightarrow> None
         | Some (i, s1) \<Rightarrow>
             (case parse_frac s1 of
                None \<Rightarrow> None
              | Some (f, s2) \<Rightarrow>
                  (case parse_exp s2 of
                     None \<Rightarrow> None
                   | Some (e, s3) \<Rightarrow> Some (sign @ i @ f @ e, s3))))"

text \<open>
  Values. The parser is a recursive descent over the text; each call takes one unit of
  fuel. \<open>JSON_parse_fuel\<close> below shows that the fuel \<open>JSON_parse\<close> starts with is never used up,
  so a text is refused only for its syntax.
\<close>

datatype 'a parsed = Parsed 'a string | Syntax_error | Out_of_fuel

fun and_then :: "'a parsed \<Rightarrow> ('a \<Rightarrow> string \<Rightarrow> 'b parsed) \<Rightarrow> 'b parsed" where
  "and_then (Parsed x r) f = f x r"
| "and_then Syntax_error f = Syntax_error"
| "and_then Out_of_fuel f = Out_of_fuel"

fun of_option :: "('a \<times> string) option \<Rightarrow> 'a parsed" where
  "of_option None = Syntax_error"
| "of_option (Some (x, r)) = Parsed x r"

fun parse_value :: "nat \<Rightarrow> string \<Rightarrow> jsval parsed"
  and parse_elements :: "nat \<Rightarrow> string \<Rightarrow> jsval list parsed"
  and parse_members :: "nat \<Rightarrow> string \<Rightarrow> (string \<times> jsval) list parsed"
where
  "parse_value 0 s = Out_of_fuel"
| "parse_value (Suc n) s =
     (case s of
        [] \<Rightarrow> Syntax_error
      | c # r \<Rightarrow>
          if c = CHR ''['' then
            (case skip_ws r of
               [] \<Rightarrow> Syntax_error
             | d # r' \<Rightarrow>
                 if d = CHR '']'' then Parsed (JArr []) r'
                 else and_then (parse_elements n (d # r')) (\<lambda>vs t. Parsed (JArr vs) t))
          else if c = CHR ''{'' then
            (case skip_ws r of
               [] \<Rightarrow> Syntax_error
             | d # r' \<Rightarrow>
                 if d = CHR ''}'' then Parsed (JObj []) r'
                 else and_then (parse_members n (d # r')) (\<lambda>ms t. Parsed (JObj ms) t))
          else if c = CHR 0x22 then and_then (of_option (parse_chars r)) (\<lambda>x t. Parsed (JStr x) t)
          else if take 4 s = ''true'' then Parsed (JBool True) (drop 4 s)
          else if take 5 s = ''false'' then Parsed (JBool False) (drop 5 s)
          else if take 4 s = ''null'' then Parsed JNull (drop 4 s)
          else and_then (of_option (parse_number s)) (\<lambda>l t. Parsed (JNum l) t))"
| "parse_elements 0 s = Out_of_fuel"
| "parse_elements (Suc n) s =
     and_then (parse_value n s) (\<lambda>v t.
       case skip_ws t of
         [] \<Rightarrow> Syntax_error
       | d # r \<Rightarrow>
           if d = CHR '','' then and_then (parse_elements n (skip_ws r)) (\<lambda>vs u. Parsed (v # vs) u)
           else if d = CHR '']'' then Parsed [v] r
           else Syntax_error)"
| "parse_members 0 s = Out_of_fuel"
| "parse_members (Suc n) s =
     (case s of
        [] \<Rightarrow> Syntax_error
      | q # r \<Rightarrow>
          if q = CHR 0x22 then
            and_then (of_option (parse_chars r)) (\<lambda>k t.
              case skip_ws t of
                [] \<Rightarrow> Syntax_error
              | c # t' \<Rightarrow>
                  if c = CHR '':'' then
                    and_then (parse_value n (skip_ws t')) (\<lambda>v u.
                      case skip_ws u of
                        [] \<Rightarrow> Syntax_error
                      | d # u' \<Rightarrow>
                          if d = CHR '','' then
                            and_then (parse_members n (skip_ws u')) (\<lambda>ms w. Parsed ((k, v) # ms) w)
                          else if d = CHR ''}'' then Parsed [(k, v)] u'
                          else Syntax_error)
                  else Syntax_error)
          else Syntax_error)"

text \<open>\<^verbatim>\<open>JSON.parse\<close>: one value between optional whitespace, or SyntaxError.\<close>

definition JSON_parse :: "string \<Rightarrow> error + jsval" where
  "JSON_parse s =
     (case parse_value (2 * length s + 1) (skip_ws s) of
        Parsed v r \<Rightarrow> if skip_ws r = [] then Inr v else Inl SyntaxError
      | Syntax_error \<Rightarrow> Inl SyntaxError
      | Out_of_fuel \<Rightarrow> Inl SyntaxError)"

text \<open>
  \<^verbatim>\<open>JSON.stringify\<close>: no whitespace is written; in a string the quote, the backslash and
  the control characters are escaped, every other character is written as it is.
\<close>

definition quote_char :: "char \<Rightarrow> string" where
  "quote_char c =
     (if c = CHR 0x08 then [CHR 0x5C, CHR ''b'']
      else if c = CHR 0x09 then [CHR 0x5C, CHR ''t'']
      else if c = CHR 0x0A then [CHR 0x5C, CHR ''n'']
      else if c = CHR 0x0C then [CHR 0x5C, CHR ''f'']
      else if c = CHR 0x0D then [CHR 0x5C, CHR ''r'']
      else if c = CHR 0x22 then [CHR 0x5C, CHR 0x22]
      else if c = CHR 0x5C then [CHR 0x5C, CHR 0x5C]
      else if (of_char c :: nat) < 0x20 then
        [CHR 0x5C, CHR ''u'', CHR ''0'', CHR ''0'',
         ''0123456789abcdef'' ! (of_char c div 16), ''0123456789abcdef'' ! (of_char c mod 16)]
      else [c])"

definition quote :: "string \<Rightarrow> string" where
  "quote s = CHR 0x22 # concat (map quote_char s) @ [CHR 0x22]"

fun join :: "string list \<Rightarrow> string" where
  "join [] = []"
| "join [x] = x"
| "join (x # y # ys) = x @ CHR '','' # join (y # ys)"

fun JSON_stringify :: "jsval \<Rightarrow> string" where
  "JSON_stringify JUndefined = ''null''"
| "JSON_stringify JNull = ''null''"
| "JSON_stringify (JBool b) = (if b then ''true'' else ''false'')"
| "JSON_stringify (JNum l) = l"
| "JSON_stringify (JStr s) = quote s"
| "JSON_stringify (JArr vs) = CHR ''['' # join (map JSON_stringify vs) @ '']''"
| "JSON_stringify (JObj ms) =
     CHR ''{'' # join (map (\<lambda>(k, v). quote k @ CHR '':'' # JSON_stringify v) ms) @ ''}''"

subsection \<open>Watchlist store\<close>

text \<open>
  \<^verbatim>\<open>localStorage\<close> maps keys to strings; \<^verbatim>\<open>getItem\<close> of a key that is not set is \<^verbatim>\<open>null\<close>.
  Storage is taken to be available: \<^verbatim>\<open>setItem\<close> does not fail.
\<close>

type_synonym storage = "string \<Rightarrow> string option"

definition WATCHLIST_KEY :: string where
  "WATCHLIST_KEY = ''aniweb_watchlist''"

text \<open>\<^verbatim>\<open>stored ? JSON.parse(stored) : []\<close>: \<^verbatim>\<open>null\<close> and the empty string are falsy.\<close>

definition getWatchlist :: "storage \<Rightarrow> error + jsval" where
  "getWatchlist ls =
     (case ls WATCHLIST_KEY of
        None \<Rightarrow> Inr (JArr [])
      | Some stored \<Rightarrow> if stored = [] then Inr (JArr []) else JSON_parse stored)"

definition saveWatchlist :: "jsval list \<Rightarrow> storage \<Rightarrow> storage" where
  "saveWatchlist list ls = ls(WATCHLIST_KEY \<mapsto> JSON_stringify (JArr list))"

text \<open>
  The identifier of a control is \<^verbatim>\<open>btn.dataset.anime\<close>: a string, or \<^verbatim>\<open>undefined\<close> (\<open>None\<close>)
  when the node has no such attribute.
\<close>

fun js_value :: "string option \<Rightarrow> jsval" where
  "js_value None = JUndefined"
| "js_value (Some a) = JStr a"

fun to_string :: "string option \<Rightarrow> string" where
  "to_string None = ''undefined''"
| "to_string (Some a) = a"

fun includes_string :: "string \<Rightarrow> string \<Rightarrow> bool" where
  "includes_string [] x = (x = [])"
| "includes_string (c # s) x = (take (length x) (c # s) = x \<or> includes_string s x)"

text \<open>
  \<^verbatim>\<open>watchlist.includes(anime)\<close> on what \<open>getWatchlist\<close> returned: membership in an array,
  the substring test on a string, and TypeError on any other value, which has no
  method \<^verbatim>\<open>includes\<close>.
\<close>

definition array_includes :: "jsval \<Rightarrow> string option \<Rightarrow> error + bool" where
  "array_includes w anime =
     (case w of
        JArr items \<Rightarrow> Inr (js_value anime \<in> set items)
      | JStr s \<Rightarrow> Inr (includes_string s (to_string anime))
      | _ \<Rightarrow> Inl TypeError)"

definition isInWatchlist :: "string option \<Rightarrow> storage \<Rightarrow> error + bool" where
  "isInWatchlist anime ls =
     (case getWatchlist ls of
        Inl e \<Rightarrow> Inl e
      | Inr w \<Rightarrow> array_includes w anime)"

subsection \<open>The page\<close>

text \<open>
  The document is a heap of element objects, each with a reference (a number). An
  element records its parent (none, the document itself, or an element), its \<^verbatim>\<open>id\<close>,
  its class tokens, \<^verbatim>\<open>dataset.anime\<close>, its text, and the click listeners registered on
  it. A listener is one of the two closures of the watchlist script, with the \<^verbatim>\<open>btn\<close> it
  captured. \<open>document_order\<close> lists the references of all elements in tree order.
\<close>

datatype parent = Detached | Document | Element nat

datatype listener = Watchlist_click nat | Description_click nat

record element =
  parentNode :: parent
  element_id :: string
  classList :: "string list"
  dataset_anime :: "string option"
  textContent :: string
  click_listeners :: "listener list"

record page =
  elements :: "nat \<Rightarrow> element"
  document_order :: "nat list"
  localStorage :: storage
  observer_target :: "nat option"

text \<open>What a handler leaves: the page, and the exception if it raised one.\<close>

datatype outcome = Done page | Threw error page

fun page_of :: "outcome \<Rightarrow> page" where
  "page_of (Done st) = st"
| "page_of (Threw e st) = st"

fun and_next :: "outcome \<Rightarrow> (page \<Rightarrow> outcome) \<Rightarrow> outcome" where
  "and_next (Done st) f = f st"
| "and_next (Threw e st) f = Threw e st"

text \<open>
  An element is in the document when its chain of parents ends at the document. The
  chain of an element of the page is no longer than the number of its elements.
\<close>

fun reaches_document :: "nat \<Rightarrow> (nat \<Rightarrow> element) \<Rightarrow> nat \<Rightarrow> bool" where
  "reaches_document 0 els n = False"
| "reaches_document (Suc k) els n =
     (case parentNode (els n) of
        Detached \<Rightarrow> False
      | Document \<Rightarrow> True
      | Element p \<Rightarrow> reaches_document k els p)"

definition isConnected :: "page \<Rightarrow> nat \<Rightarrow> bool" where
  "isConnected st n = reaches_document (length (document_order st)) (elements st) n"

definition querySelectorAll_class :: "string \<Rightarrow> page \<Rightarrow> nat list" where
  "querySelectorAll_class c st =
     filter (\<lambda>n. isConnected st n \<and> c \<in> set (classList (elements st n))) (document_order st)"

definition getElementById :: "string \<Rightarrow> page \<Rightarrow> nat option" where
  "getElementById i st =
     find (\<lambda>n. isConnected st n \<and> element_id (elements st n) = i) (document_order st)"

definition parentElement :: "page \<Rightarrow> nat \<Rightarrow> nat option" where
  "parentElement st n = (case parentNode (elements st n) of Element p \<Rightarrow> Some p | _ \<Rightarrow> None)"

text \<open>\<^verbatim>\<open>node.remove()\<close> takes the node, with its subtree, out of its parent.\<close>

definition remove_node :: "nat \<Rightarrow> page \<Rightarrow> page" where
  "remove_node n st = st\<lparr>elements := (elements st)(n := (elements st n)\<lparr>parentNode := Detached\<rparr>)\<rparr>"

text \<open>
  Assigning \<^verbatim>\<open>textContent\<close> replaces the children of the node by the text: the elements
  that were its children have no parent afterwards.
\<close>

definition set_textContent :: "nat \<Rightarrow> string \<Rightarrow> page \<Rightarrow> page" where
  "set_textContent b txt st =
     st\<lparr>elements := (\<lambda>n. if n = b then (elements st b)\<lparr>textContent := txt\<rparr>
                          else if parentNode (elements st n) = Element b
                          then (elements st n)\<lparr>parentNode := Detached\<rparr>
                          else elements st n)\<rparr>"

text \<open>
  \<^verbatim>\<open>addEventListener('click', f)\<close> with a new closure \<open>f\<close>: the listener is added after the
  ones already registered (a closure is never equal to an earlier one).
\<close>

definition addEventListener :: "nat \<Rightarrow> listener \<Rightarrow> page \<Rightarrow> page" where
  "addEventListener n l st =
     st\<lparr>elements := (elements st)
          (n := (elements st n)\<lparr>click_listeners := click_listeners (elements st n) @ [l]\<rparr>)\<rparr>"

subsection \<open>Watchlist view\<close>

text \<open>The two star glyphs, U+2605 and U+2606, in UTF-8.\<close>

definition star_filled :: string where
  "star_filled = [CHR 0xE2, CHR 0x98, CHR 0x85]"

definition star_hollow :: string where
  "star_hollow = [CHR 0xE2, CHR 0x98, CHR 0x86]"

text \<open>\<^verbatim>\<open>btn.classList[1] === "remove-btn"\<close>: the second class token, if there is one.\<close>

definition is_remove_btn :: "element \<Rightarrow> bool" where
  "is_remove_btn el = (1 < length (classList el) \<and> classList el ! 1 = ''remove-btn'')"

text \<open>
  The body of \<^verbatim>\<open>forEach\<close> in \<open>updateWatchlistButtons\<close>, over the node list that
  \<^verbatim>\<open>querySelectorAll\<close> returned (the list is static: it is not recomputed when a card is
  removed). \<^verbatim>\<open>btn.parentElement.remove()\<close> raises TypeError when the button has no parent
  element.
\<close>

fun update_buttons :: "nat list \<Rightarrow> page \<Rightarrow> outcome" where
  "update_buttons [] st = Done st"
| "update_buttons (btn # rest) st =
     (case isInWatchlist (dataset_anime (elements st btn)) (localStorage st) of
        Inl e \<Rightarrow> Threw e st
      | Inr present \<Rightarrow>
          (let st1 = set_textContent btn (if present then star_filled else star_hollow) st in
           if textContent (elements st1 btn) = star_hollow \<and> is_remove_btn (elements st1 btn)
           then (case parentElement st1 btn of
                   None \<Rightarrow> Threw TypeError st1
                 | Some p \<Rightarrow> update_buttons rest (remove_node p st1))
           else update_buttons rest st1))"

text \<open>The description page's button, if the page has one.\<close>

definition update_description :: "page \<Rightarrow> outcome" where
  "update_description st =
     (case getElementById ''description-watchlist-btn'' st of
        None \<Rightarrow> Done st
      | Some btn \<Rightarrow>
          (case isInWatchlist (dataset_anime (elements st btn)) (localStorage st) of
             Inl e \<Rightarrow> Threw e st
           | Inr present \<Rightarrow>
               Done (set_textContent btn
                       (if present then ''Remove from watchlist'' else ''Add to watchlist'') st)))"

definition updateWatchlistButtons :: "page \<Rightarrow> outcome" where
  "updateWatchlistButtons st =
     and_next (update_buttons (querySelectorAll_class ''watchlist-btn'' st) st) update_description"

text \<open>
  \<open>toggleWatchlist\<close>. On a value that is not an array, \<^verbatim>\<open>includes\<close>, \<^verbatim>\<open>filter\<close> or \<^verbatim>\<open>push\<close>
  is missing and the call raises TypeError before anything is saved.
\<close>

definition toggleWatchlist :: "string option \<Rightarrow> page \<Rightarrow> outcome" where
  "toggleWatchlist anime st =
     (case getWatchlist (localStorage st) of
        Inl e \<Rightarrow> Threw e st
      | Inr w \<Rightarrow>
          (case array_includes w anime of
             Inl e \<Rightarrow> Threw e st
           | Inr present \<Rightarrow>
               (case w of
                  JArr watchlist \<Rightarrow>
                    updateWatchlistButtons
                      (st\<lparr>localStorage :=
                           saveWatchlist
                             (if present then filter (\<lambda>id. id \<noteq> js_value anime) watchlist
                              else watchlist @ [js_value anime])
                             (localStorage st)\<rparr>)
                | _ \<Rightarrow> Threw TypeError st)))"

subsection \<open>Click handlers and their dispatch\<close>

text \<open>
  The two flags of a click event a listener can set: \<^verbatim>\<open>preventDefault()\<close> cancels the
  default action of the click (following the link the target is in), and
  \<^verbatim>\<open>stopPropagation()\<close> keeps the event from the listeners of the target's ancestors.
\<close>

record event =
  defaultPrevented :: bool
  propagationStopped :: bool

fun run_listener :: "listener \<Rightarrow> event \<Rightarrow> page \<Rightarrow> event \<times> outcome" where
  "run_listener (Watchlist_click btn) e st =
     (e\<lparr>defaultPrevented := True\<rparr>, toggleWatchlist (dataset_anime (elements st btn)) st)"
| "run_listener (Description_click btn) e st =
     (e, toggleWatchlist (dataset_anime (elements st btn)) st)"

text \<open>
  The listeners of one node run in the order of their registration; an exception of one
  is reported and the next still runs.
\<close>

fun run_listeners :: "listener list \<Rightarrow> event \<Rightarrow> page \<Rightarrow> event \<times> page" where
  "run_listeners [] e st = (e, st)"
| "run_listeners (l # ls) e st =
     (case run_listener l e st of (e', out) \<Rightarrow> run_listeners ls e' (page_of out))"

text \<open>The path of a click: the target, then its ancestors.\<close>

fun event_path :: "nat \<Rightarrow> (nat \<Rightarrow> element) \<Rightarrow> nat \<Rightarrow> nat list" where
  "event_path 0 els n = [n]"
| "event_path (Suc k) els n =
     n # (case parentNode (els n) of Element p \<Rightarrow> event_path k els p | _ \<Rightarrow> [])"

fun dispatch :: "nat list \<Rightarrow> event \<Rightarrow> page \<Rightarrow> event \<times> page" where
  "dispatch [] e st = (e, st)"
| "dispatch (n # path) e st =
     (case run_listeners (click_listeners (elements st n)) e st of
        (e', st') \<Rightarrow> if propagationStopped e' then (e', st') else dispatch path e' st')"

definition click :: "nat \<Rightarrow> page \<Rightarrow> event \<times> page" where
  "click target st =
     dispatch (event_path (length (document_order st)) (elements st) target)
       \<lparr>defaultPrevented = False, propagationStopped = False\<rparr> st"

subsection \<open>Initialisation and the mutation observer\<close>

definition bind_watchlist_buttons :: "page \<Rightarrow> page" where
  "bind_watchlist_buttons st =
     fold (\<lambda>btn. addEventListener btn (Watchlist_click btn))
       (querySelectorAll_class ''watchlist-btn'' st) st"

text \<open>
  The DOMContentLoaded listener of the watchlist. \<^verbatim>\<open>btn.addEventListener\<close> on the
  description button raises TypeError when \<^verbatim>\<open>getElementById\<close> returned \<^verbatim>\<open>null\<close>.
\<close>

definition watchlist_init :: "page \<Rightarrow> outcome" where
  "watchlist_init st =
     (let st1 = bind_watchlist_buttons st in
      case getElementById ''description-watchlist-btn'' st1 of
        None \<Rightarrow> Threw TypeError st1
      | Some btn \<Rightarrow>
          and_next (updateWatchlistButtons (addEventListener btn (Description_click btn) st1))
            (\<lambda>st2. Done (case getElementById ''watchlist-grid'' st2 of
                            None \<Rightarrow> st2
                          | Some target \<Rightarrow> st2\<lparr>observer_target := Some target\<rparr>)))"

text \<open>A mutation record: its type and the nodes that were added.\<close>

record mutation =
  mutation_type :: string
  addedNodes :: "nat list"

fun observer_callback :: "mutation list \<Rightarrow> page \<Rightarrow> outcome" where
  "observer_callback [] st = Done st"
| "observer_callback (m # ms) st =
     (if mutation_type m = ''childList'' \<and> 0 < length (addedNodes m)
      then and_next (updateWatchlistButtons (bind_watchlist_buttons st)) (observer_callback ms)
      else observer_callback ms st)"

subsection \<open>Playback controller: seeking and the timestamp\<close>

text \<open>
  The state the seek and timeupdate handlers read and write, on a page that has the
  player's nodes: the media element's \<open>currentTime\<close> (always a finite number) and
  \<open>duration\<close> (\<open>NaN\<close> until the metadata is known), the value assigned to the seek bar
  and the text of the timestamp node.
\<close>

datatype jsnum = NaN | Num real

record player =
  currentTime :: real
  duration :: jsnum
  seekBar_value :: real
  timestamp :: string

text \<open>\<^verbatim>\<open>Math.min\<close> and \<^verbatim>\<open>Math.max\<close>: \<open>NaN\<close> if an argument is \<open>NaN\<close>.\<close>

fun Math_min :: "jsnum \<Rightarrow> jsnum \<Rightarrow> jsnum" where
  "Math_min (Num x) (Num y) = Num (min x y)"
| "Math_min _ _ = NaN"

fun Math_max :: "jsnum \<Rightarrow> jsnum \<Rightarrow> jsnum" where
  "Math_max (Num x) (Num y) = Num (max x y)"
| "Math_max _ _ = NaN"

text \<open>
  The setter of \<^verbatim>\<open>video.currentTime\<close>: a value that is not finite raises TypeError. The
  value stored is the value the script assigns.
\<close>

fun set_currentTime :: "jsnum \<Rightarrow> player \<Rightarrow> error + player" where
  "set_currentTime NaN v = Inl TypeError"
| "set_currentTime (Num x) v = Inr (v\<lparr>currentTime := x\<rparr>)"

text \<open>The keydown listener of the document: \<open>code\<close> is \<^verbatim>\<open>e.code\<close>.\<close>

definition keydown_handler :: "string \<Rightarrow> player \<Rightarrow> error + player" where
  "keydown_handler code v =
     (if code = ''ArrowRight''
      then set_currentTime (Math_min (Num (currentTime v + 10)) (duration v)) v
      else if code = ''ArrowLeft''
      then set_currentTime (Math_max (Num (currentTime v - 10)) (Num 0)) v
      else Inr v)"

text \<open>The click listeners of the skip-back and skip-forward buttons.\<close>

definition rewind_click :: "player \<Rightarrow> error + player" where
  "rewind_click v = set_currentTime (Math_max (Num (currentTime v - 88)) (Num 0)) v"

definition forward_click :: "player \<Rightarrow> error + player" where
  "forward_click v = set_currentTime (Math_min (Num (currentTime v + 88)) (duration v)) v"

text \<open>
  The remainder operator \<^verbatim>\<open>%\<close> on numbers: the quotient is truncated towards zero, so
  the result has the sign of the dividend.
\<close>

definition js_rem :: "real \<Rightarrow> real \<Rightarrow> real" where
  "js_rem x y = x - y * of_int (if 0 \<le> x / y then \<lfloor>x / y\<rfloor> else \<lceil>x / y\<rceil>)"

text \<open>
  \<^verbatim>\<open>parseInt\<close> applied to a number \<open>x\<close> with \<open>0 \<le> x < 10^21\<close>. \<^verbatim>\<open>parseInt\<close> first
  converts its argument to a string. From \<open>10^-6\<close> on (and for \<open>0\<close>) the string is in
  positional notation and its integer part is \<open>\<lfloor>x\<rfloor>\<close>. A positive number below \<open>10^-6\<close>
  is written in exponent notation (\<^verbatim>\<open>5e-7\<close>), and \<^verbatim>\<open>parseInt\<close> reads the digits before
  the first character that is not a digit: the leading significant digit of \<open>x\<close>.
  \<open>lead_digit\<close> finds it by scaling; no positive double is below \<open>10^-324\<close>, so 400
  steps reach it. Numbers are taken as reals here. The browser computes \<^verbatim>\<open>/\<close> and \<^verbatim>\<open>%\<close> in
  doubles and converts the shortest decimal text of the result, which is the same on
  whole seconds and at the times examined below, and can differ from the real number in
  the last digits elsewhere.
\<close>

fun lead_digit :: "nat \<Rightarrow> real \<Rightarrow> nat" where
  "lead_digit 0 x = nat \<lfloor>x\<rfloor>"
| "lead_digit (Suc k) x = (if 1 \<le> x then nat \<lfloor>x\<rfloor> else lead_digit k (x * 10))"

definition parseInt :: "real \<Rightarrow> nat" where
  "parseInt x = (if 0 < x \<and> x < 1 / 10 ^ 6 then lead_digit 400 x else nat \<lfloor>x\<rfloor>)"

text \<open>
  \<^verbatim>\<open>n.toLocaleString('en-US', {minimumIntegerDigits: 2, useGrouping: false})\<close> for a
  natural number: its decimal digits, padded with zeros to two digits at least.
\<close>

fun decimal :: "nat \<Rightarrow> string" where
  "decimal n = (if n < 10 then [''0123456789'' ! n]
                else decimal (n div 10) @ [''0123456789'' ! (n mod 10)])"

definition toLocaleString2 :: "nat \<Rightarrow> string" where
  "toLocaleString2 n = (if n < 10 then CHR ''0'' # decimal n else decimal n)"

text \<open>A number is falsy when it is \<open>NaN\<close> or zero.\<close>

fun falsy :: "jsnum \<Rightarrow> bool" where
  "falsy NaN = True"
| "falsy (Num d) = (d = 0)"

fun the_num :: "jsnum \<Rightarrow> real" where
  "the_num (Num d) = d"
| "the_num NaN = 0"

text \<open>The timeupdate listener of the media element.\<close>

definition timeupdate_handler :: "player \<Rightarrow> player" where
  "timeupdate_handler v =
     (if falsy (duration v) then v
      else v\<lparr>seekBar_value := (currentTime v / the_num (duration v)) * 100,
             timestamp := toLocaleString2 (parseInt (js_rem (currentTime v / 60) 60))
                          @ '':'' @ toLocaleString2 (parseInt (js_rem (currentTime v) 60))\<rparr>)"

subsection \<open>Suggestion fetcher\<close>

text \<open>
  The state of the autocomplete script: the value of the search field, the rows of the
  suggestion list (\<open>None\<close> when the page has no such node), and the requests sent so
  far, each by its query.
\<close>

record search =
  searchInput_value :: string
  suggestions :: "string list option"
  requests :: "string list"

text \<open>
  The input listener, up to its first \<^verbatim>\<open>await\<close>. With an empty query it clears the list
  and returns; otherwise it sends the request for the query. Assigning \<^verbatim>\<open>innerHTML\<close> on
  a missing list raises TypeError.
\<close>

definition input_handler :: "search \<Rightarrow> error + search" where
  "input_handler s =
     (let query = searchInput_value s in
      if query = [] then
        (case suggestions s of
           None \<Rightarrow> Inl TypeError
         | Some rows \<Rightarrow> Inr (s\<lparr>suggestions := Some []\<rparr>))
      else Inr (s\<lparr>requests := requests s @ [query]\<rparr>))"

subsection \<open>Example pages\<close>

definition blank_element :: element where
  "blank_element = \<lparr>parentNode = Detached, element_id = [], classList = [],
     dataset_anime = None, textContent = [], click_listeners = []\<rparr>"

text \<open>A page without elements whose storage holds \<open>payload\<close> under the watchlist's key.\<close>

definition stored_page :: "string \<Rightarrow> page" where
  "stored_page payload =
     \<lparr>elements = (\<lambda>n. blank_element), document_order = [],
      localStorage = Map.empty(WATCHLIST_KEY \<mapsto> payload), observer_target = None\<rparr>"

text \<open>
  A page with one card (element 0) that holds one control (element 1) for the title
  \<^verbatim>\<open>a\<close>; the control's class tokens are \<open>cls\<close>. Nothing is stored.
\<close>

definition card_page :: "string list \<Rightarrow> page" where
  "card_page cls =
     \<lparr>elements = (\<lambda>n. blank_element)
        (0 := blank_element\<lparr>parentNode := Document, classList := [''card'']\<rparr>,
         1 := blank_element\<lparr>parentNode := Element 0, classList := cls,
                dataset_anime := Some ''a''\<rparr>),
      document_order = [0, 1], localStorage = Map.empty, observer_target = None\<rparr>"


text \<open>
  A watchlist page as it is loaded. The grid (element 0) is still empty and the page has
  the description button (element 5). Two cards (elements 1 and 3), each with one
  control (elements 2 and 4, for the titles \<^verbatim>\<open>a\<close> and \<^verbatim>\<open>b\<close>), are built but not yet in the
  document. Nothing is stored.
\<close>

definition watchlist_page :: page where
  "watchlist_page =
     \<lparr>elements = (\<lambda>n. blank_element)
        (0 := blank_element\<lparr>parentNode := Document, element_id := ''watchlist-grid''\<rparr>,
         1 := blank_element\<lparr>classList := [''card'']\<rparr>,
         2 := blank_element\<lparr>parentNode := Element 1, classList := [''watchlist-btn''],
                dataset_anime := Some ''a''\<rparr>,
         3 := blank_element\<lparr>classList := [''card'']\<rparr>,
         4 := blank_element\<lparr>parentNode := Element 3, classList := [''watchlist-btn''],
                dataset_anime := Some ''b''\<rparr>,
         5 := blank_element\<lparr>parentNode := Document,
                element_id := ''description-watchlist-btn'', dataset_anime := Some ''c''\<rparr>),
      document_order = [0, 1, 2, 3, 4, 5], localStorage = Map.empty, observer_target = None\<rparr>"

text \<open>The page's rendering code appends the two cards to the grid.\<close>

definition append_cards :: "page \<Rightarrow> page" where
  "append_cards st =
     st\<lparr>elements := (elements st)
          (1 := (elements st 1)\<lparr>parentNode := Element 0\<rparr>,
           3 := (elements st 3)\<lparr>parentNode := Element 0\<rparr>)\<rparr>"

text \<open>
  The run that is examined: the page is initialised, the cards are appended, and the
  observer's callback receives one record for each card.
\<close>

definition rendered_page :: page where
  "rendered_page =
     page_of (observer_callback
       [\<lparr>mutation_type = ''childList'', addedNodes = [1]\<rparr>,
        \<lparr>mutation_type = ''childList'', addedNodes = [3]\<rparr>]
       (append_cards (page_of (watchlist_init watchlist_page))))"

section \<open>Properties\<close>

subsection \<open>JSON text: what is written is read back\<close>



lemma skip_ws_nonws: "\<not> is_ws c \<Longrightarrow> skip_ws (c # s) = c # s"
  by (simp add: skip_ws_def)

lemma hex_roundtrip:
  "n < 16 \<Longrightarrow> hex_val (''0123456789abcdef'' ! n) = Some n"
proof -
  assume "n < 16"
  then have "n \<in> set [0..<16]" by simp
  moreover have "\<forall>k \<in> set [0..<16]. hex_val (''0123456789abcdef'' ! k) = Some k"
    by code_simp
  ultimately show ?thesis by blast
qed

lemma parse_chars_quote_char:
  "parse_chars (quote_char c @ t) = map_option (\<lambda>(s, r). (c # s, r)) (parse_chars t)"
proof (cases "(of_char c :: nat) < 0x20")
  case False
  then show ?thesis
    by (auto simp: quote_char_def escape_char_def)
next
  case True
  let ?n = "of_char c :: nat"
  have d: "?n div 16 < 16" "?n mod 16 < 16" using True by simp_all
  have h: "hex4 (CHR ''0'') (CHR ''0'') (''0123456789abcdef'' ! (?n div 16)) (''0123456789abcdef'' ! (?n mod 16)) = Some ?n"
    using hex_roundtrip[OF d(1)] hex_roundtrip[OF d(2)]
    by (simp add: hex4_def hex_val_def)
  have u: "utf8 ?n = [c]" using True by (simp add: utf8_def)
  show ?thesis
    using True h u
    by (auto simp: quote_char_def escape_char_def)
qed

lemma parse_chars_quote:
  "parse_chars (concat (map quote_char s) @ CHR 0x22 # t) = Some (s, t)"
  by (induction s) (simp_all add: parse_chars_quote_char del: parse_chars.simps(2), simp)

lemma parse_value_quote:
  "parse_value (Suc n) (quote x @ t) = Parsed (JStr x) t"
  by (simp add: quote_def parse_chars_quote)

lemma skip_ws_quote: "skip_ws (quote y @ r) = quote y @ r"
  by (simp add: quote_def skip_ws_nonws is_ws_def)

lemma skip_ws_join_quote:
  "xs \<noteq> [] \<Longrightarrow> skip_ws (join (map quote xs) @ r) = join (map quote xs) @ r"
  by (induction xs rule: induct_list012) (simp_all add: skip_ws_quote)

lemma parse_elements_quoted:
  "xs \<noteq> [] \<Longrightarrow> length xs < n \<Longrightarrow>
   parse_elements n (join (map quote xs) @ CHR '']'' # t) = Parsed (map JStr xs) t"
proof (induction xs arbitrary: n)
  case Nil
  then show ?case by simp
next
  case (Cons x xs)
  from Cons.prems obtain m where n: "n = Suc (Suc m)" and m: "length xs \<le> m"
    by (cases n; cases "n - 1") auto
  show ?case
  proof (cases xs)
    case Nil
    show ?thesis
      unfolding n Nil
      by (subst parse_elements.simps)
        (simp add: parse_value_quote skip_ws_nonws is_ws_def
          del: parse_value.simps parse_elements.simps)
  next
    case (Cons y ys)
    have j: "join (map quote (x # xs)) @ CHR '']'' # t
               = quote x @ CHR '','' # (join (map quote xs) @ CHR '']'' # t)"
      using Cons by simp
    have ne: "xs \<noteq> []" using Cons by simp
    have ih: "parse_elements (Suc m) (join (map quote xs) @ CHR '']'' # t) = Parsed (map JStr xs) t"
      using Cons.IH[of "Suc m"] ne m by simp
    show ?thesis
      unfolding n j
      by (subst parse_elements.simps)
        (simp add: parse_value_quote skip_ws_nonws is_ws_def skip_ws_join_quote[OF ne] ih
          del: parse_value.simps parse_elements.simps)
  qed
qed

lemma parse_value_string_array:
  assumes "length xs < n"
  shows "parse_value (Suc n) (CHR ''['' # join (map quote xs) @ '']'') = Parsed (JArr (map JStr xs)) []"
proof (cases xs)
  case Nil
  then show ?thesis by (simp add: skip_ws_nonws is_ws_def)
next
  case (Cons y ys)
  then obtain r where dr: "join (map quote xs) @ '']'' = CHR 0x22 # r"
    by (cases ys) (simp_all add: quote_def)
  have ne: "xs \<noteq> []" using Cons by simp
  have sk: "skip_ws (join (map quote xs) @ '']'') = join (map quote xs) @ '']''"
    by (rule skip_ws_join_quote[OF ne])
  have el: "parse_elements n (CHR 0x22 # r) = Parsed (map JStr xs) []"
    using parse_elements_quoted[OF ne assms, of "[]"] dr by simp
  show ?thesis
    by (subst parse_value.simps)
      (simp add: sk[unfolded dr] dr el skip_ws_nonws is_ws_def del: parse_value.simps parse_elements.simps)
qed

lemma JSON_roundtrip_strings:
  "JSON_parse (JSON_stringify (JArr (map JStr xs))) = Inr (JArr (map JStr xs))"
proof -
  let ?s = "CHR ''['' # join (map quote xs) @ '']''"
  have "length xs \<le> length (join (map quote xs))"
    by (induction xs rule: induct_list012) (simp_all add: quote_def)
  then have len: "length xs < 2 * length ?s" by simp
  have st: "JSON_stringify (JArr (map JStr xs)) = ?s"
    by (simp add: comp_def)
  have sk: "skip_ws ?s = ?s"
    by (simp add: skip_ws_nonws is_ws_def)
  have "parse_value (Suc (2 * length ?s)) ?s = Parsed (JArr (map JStr xs)) []"
    using parse_value_string_array[OF len] .
  then show ?thesis
    unfolding st JSON_parse_def sk
    by (simp add: skip_ws_def del: parse_value.simps)
qed

lemma skip_ws_length: "length (skip_ws s) \<le> length s"
  by (simp add: skip_ws_def length_dropWhile_le)

lemma parse_chars_shorter: "parse_chars s = Some (x, r) \<Longrightarrow> length r < length s"
proof (induction s arbitrary: x r rule: parse_chars.induct)
  case 1
  then show ?case by simp
next
  case (2 c cs)
  show ?case
    using "2.prems" "2.IH"
    by (fastforce simp: less_Suc_eq split: if_splits list.splits option.splits)
qed

lemma parse_digits_shorter: "parse_digits s = Some (x, r) \<Longrightarrow> length r < length s"
  unfolding parse_digits_def
  by (cases s) (auto split: if_splits simp: less_Suc_eq_le length_dropWhile_le)

lemma parse_int_shorter: "parse_int s = Some (x, r) \<Longrightarrow> length r < length s"
  unfolding parse_int_def
  by (auto split: list.splits if_splits dest: parse_digits_shorter)

lemma parse_frac_shorter: "parse_frac s = Some (x, r) \<Longrightarrow> length r \<le> length s"
  unfolding parse_frac_def
  by (auto split: list.splits if_splits dest!: parse_digits_shorter)

lemma parse_exp_shorter: "parse_exp s = Some (x, r) \<Longrightarrow> length r \<le> length s"
  unfolding parse_exp_def
  by (auto split: list.splits if_splits dest!: parse_digits_shorter)

lemma parse_number_shorter: "parse_number s = Some (x, r) \<Longrightarrow> length r < length s"
  unfolding parse_number_def
  by (auto split: list.splits if_splits option.splits prod.splits
      dest!: parse_int_shorter parse_frac_shorter parse_exp_shorter)

lemma and_then_Parsed:
  "and_then p f = Parsed y u \<Longrightarrow> \<exists>x t. p = Parsed x t \<and> f x t = Parsed y u"
  by (cases p) simp_all

lemma of_option_Parsed: "of_option p = Parsed x t \<Longrightarrow> p = Some (x, t)"
  by (cases p) auto

lemma parse_shorter:
  "(parse_value n s = Parsed v r \<longrightarrow> length r < length s)"
  "(parse_elements n s = Parsed vs r \<longrightarrow> length r < length s)"
  "(parse_members n s = Parsed ms r \<longrightarrow> length r < length s)"
proof (induction n s and n s and n s arbitrary: v r and vs r and ms r
    rule: parse_value_parse_elements_parse_members.induct)
  case (1 s)
  then show ?case by simp
next
  case (2 n s)
  show ?case
  proof
    assume a: "parse_value (Suc n) s = Parsed v r"
    then obtain c t where s: "s = c # t" by (cases s) auto
    consider (arr) "c = CHR ''[''" | (obj) "c \<noteq> CHR ''[''" "c = CHR ''{''"
      | (str) "c \<noteq> CHR ''[''" "c \<noteq> CHR ''{''" "c = CHR 0x22"
      | (other) "c \<noteq> CHR ''[''" "c \<noteq> CHR ''{''" "c \<noteq> CHR 0x22" by blast
    then show "length r < length s"
    proof cases
      case arr
      show ?thesis
      proof (cases "skip_ws t")
        case Nil
        then show ?thesis using a s arr by simp
      next
        case (Cons d t')
        have le: "length (d # t') \<le> length t" using skip_ws_length[of t] Cons by simp
        show ?thesis
        proof (cases "d = CHR '']''")
          case True
          then show ?thesis using a s arr Cons le by auto
        next
          case False
          then obtain ws where "parse_elements n (d # t') = Parsed ws r"
            using a s arr Cons by (auto dest!: and_then_Parsed)
          then have "length r < length (d # t')"
            using "2.IH"(1)[OF s arr Cons False] by blast
          then show ?thesis using le s by simp
        qed
      qed
    next
      case obj
      show ?thesis
      proof (cases "skip_ws t")
        case Nil
        then show ?thesis using a s obj by simp
      next
        case (Cons d t')
        have le: "length (d # t') \<le> length t" using skip_ws_length[of t] Cons by simp
        show ?thesis
        proof (cases "d = CHR ''}''")
          case True
          then show ?thesis using a s obj Cons le by auto
        next
          case False
          then obtain ws where "parse_members n (d # t') = Parsed ws r"
            using a s obj Cons by (auto dest!: and_then_Parsed)
          then have "length r < length (d # t')"
            using "2.IH"(2)[OF s obj(1) obj(2) Cons False] by blast
          then show ?thesis using le s by simp
        qed
      qed
    next
      case str
      then have "parse_chars t = Some (case v of JStr x \<Rightarrow> x | _ \<Rightarrow> [], r)"
        using a s by (auto dest!: and_then_Parsed of_option_Parsed)
      then show ?thesis using parse_chars_shorter s by fastforce
    next
      case other
      then show ?thesis
        using a s
        by (auto split: if_splits dest!: and_then_Parsed of_option_Parsed parse_number_shorter)
    qed
  qed
next
  case (3 s)
  then show ?case by simp
next
  case (4 n s)
  show ?case
  proof
    assume a: "parse_elements (Suc n) s = Parsed vs r"
    then obtain v t where v: "parse_value n s = Parsed v t"
      and k: "(case skip_ws t of [] \<Rightarrow> Syntax_error
         | d # r \<Rightarrow> if d = CHR '','' then and_then (parse_elements n (skip_ws r)) (\<lambda>vs u. Parsed (v # vs) u)
             else if d = CHR '']'' then Parsed [v] r else Syntax_error) = Parsed vs r"
      by (auto dest!: and_then_Parsed)
    have lt: "length t < length s" using "4.IH"(1) v by blast
    obtain d t' where sk: "skip_ws t = d # t'" using k by (cases "skip_ws t") auto
    have le: "length (d # t') \<le> length t" using skip_ws_length[of t] sk by simp
    show "length r < length s"
    proof (cases "d = CHR '',''")
      case True
      then obtain ws where "parse_elements n (skip_ws t') = Parsed ws r"
        using k sk by (auto dest!: and_then_Parsed)
      then have "length r < length (skip_ws t')"
        using "4.IH"(2)[OF sk True] by blast
      then show ?thesis using skip_ws_length[of t'] le lt by simp
    next
      case False
      then show ?thesis using k sk le lt by (auto split: if_splits)
    qed
  qed
next
  case (5 s)
  then show ?case by simp
next
  case (6 n s)
  show ?case
  proof
    assume a: "parse_members (Suc n) s = Parsed ms r"
    then obtain q t where s: "s = q # t" by (cases s) auto
    have q: "q = CHR 0x22" using a s by (auto split: if_splits)
    obtain k t1 where pc: "parse_chars t = Some (k, t1)"
      and k1: "(case skip_ws t1 of [] \<Rightarrow> Syntax_error
            | c # t' \<Rightarrow> if c = CHR '':'' then
                 and_then (parse_value n (skip_ws t')) (\<lambda>v u.
                   case skip_ws u of [] \<Rightarrow> Syntax_error
                   | d # u' \<Rightarrow> if d = CHR '','' then
                         and_then (parse_members n (skip_ws u')) (\<lambda>ms w. Parsed ((k, v) # ms) w)
                       else if d = CHR ''}'' then Parsed [(k, v)] u' else Syntax_error)
               else Syntax_error) = Parsed ms r"
      using a s q by (auto dest!: and_then_Parsed of_option_Parsed)
    have l1: "length t1 < length t" using parse_chars_shorter pc by blast
    obtain c t2 where sk1: "skip_ws t1 = c # t2" using k1 by (cases "skip_ws t1") auto
    have c: "c = CHR '':''" using k1 sk1 by (auto split: if_splits)
    have l2: "length (c # t2) \<le> length t1" using skip_ws_length[of t1] sk1 by simp
    obtain v u where pv: "parse_value n (skip_ws t2) = Parsed v u"
      and k2: "(case skip_ws u of [] \<Rightarrow> Syntax_error
                   | d # u' \<Rightarrow> if d = CHR '','' then
                         and_then (parse_members n (skip_ws u')) (\<lambda>ms w. Parsed ((k, v) # ms) w)
                       else if d = CHR ''}'' then Parsed [(k, v)] u' else Syntax_error) = Parsed ms r"
      using k1 sk1 c by (auto dest!: and_then_Parsed)
    have l3: "length u < length (skip_ws t2)"
      using "6.IH"(1)[OF s q sk1 c] pv by blast
    obtain d u' where sk2: "skip_ws u = d # u'" using k2 by (cases "skip_ws u") auto
    have l4: "length (d # u') \<le> length u" using skip_ws_length[of u] sk2 by simp
    have l5: "length (skip_ws t2) \<le> length t2" by (rule skip_ws_length)
    show "length r < length s"
    proof (cases "d = CHR '',''")
      case True
      then obtain ws where "parse_members n (skip_ws u') = Parsed ws r"
        using k2 sk2 by (auto dest!: and_then_Parsed)
      then have "length r < length (skip_ws u')"
        using "6.IH"(2)[OF s q sk1 c sk2 True] by blast
      then show ?thesis using skip_ws_length[of u'] l1 l2 l3 l4 l5 s by simp
    next
      case False
      then show ?thesis using k2 sk2 l1 l2 l3 l4 l5 s by (auto split: if_splits)
    qed
  qed
qed

lemma and_then_fuel:
  "p \<noteq> Out_of_fuel \<Longrightarrow> (\<And>x t. p = Parsed x t \<Longrightarrow> f x t \<noteq> Out_of_fuel)
    \<Longrightarrow> and_then p f \<noteq> Out_of_fuel"
  by (cases p) simp_all

lemma of_option_fuel: "of_option p \<noteq> Out_of_fuel"
  by (cases p) auto

lemma parse_fuel:
  "(2 * length s < n \<longrightarrow> parse_value n s \<noteq> Out_of_fuel)"
  "(2 * length s + 1 < n \<longrightarrow> parse_elements n s \<noteq> Out_of_fuel)"
  "(2 * length s + 1 < n \<longrightarrow> parse_members n s \<noteq> Out_of_fuel)"
proof (induction n s and n s and n s
    rule: parse_value_parse_elements_parse_members.induct)
  case (1 s)
  then show ?case by simp
next
  case (2 n s)
  show ?case
  proof
    assume f: "2 * length s < Suc n"
    show "parse_value (Suc n) s \<noteq> Out_of_fuel"
    proof (cases s)
      case Nil
      then show ?thesis by simp
    next
      case (Cons c t)
      consider (arr) "c = CHR ''[''" | (obj) "c \<noteq> CHR ''[''" "c = CHR ''{''"
        | (other) "c \<noteq> CHR ''[''" "c \<noteq> CHR ''{''" by blast
      then show ?thesis
      proof cases
        case arr
        show ?thesis
        proof (cases "skip_ws t")
          case Nil
          then show ?thesis using Cons arr by simp
        next
          case sk: (Cons d t')
          have le: "length (d # t') \<le> length t" using skip_ws_length[of t] sk by simp
          show ?thesis
          proof (cases "d = CHR '']''")
            case True
            then show ?thesis using Cons arr sk by simp
          next
            case False
            have "2 * length (d # t') + 1 < n" using le f Cons by simp
            then have "parse_elements n (d # t') \<noteq> Out_of_fuel"
              using "2.IH"(1)[OF Cons arr sk False] by blast
            then show ?thesis using Cons arr sk False by (simp add: and_then_fuel)
          qed
        qed
      next
        case obj
        show ?thesis
        proof (cases "skip_ws t")
          case Nil
          then show ?thesis using Cons obj by simp
        next
          case sk: (Cons d t')
          have le: "length (d # t') \<le> length t" using skip_ws_length[of t] sk by simp
          show ?thesis
          proof (cases "d = CHR ''}''")
            case True
            then show ?thesis using Cons obj sk by simp
          next
            case False
            have "2 * length (d # t') + 1 < n" using le f Cons by simp
            then have "parse_members n (d # t') \<noteq> Out_of_fuel"
              using "2.IH"(2)[OF Cons obj(1) obj(2) sk False] by blast
            then show ?thesis using Cons obj sk False by (simp add: and_then_fuel)
          qed
        qed
      next
        case other
        then show ?thesis using Cons by (simp add: and_then_fuel of_option_fuel)
      qed
    qed
  qed
next
  case (3 s)
  then show ?case by simp
next
  case (4 n s)
  show ?case
  proof
    assume f: "2 * length s + 1 < Suc n"
    then have pv: "parse_value n s \<noteq> Out_of_fuel" using "4.IH"(1) by simp
    show "parse_elements (Suc n) s \<noteq> Out_of_fuel"
      unfolding parse_elements.simps
    proof (rule and_then_fuel[OF pv])
      fix v t
      assume v: "parse_value n s = Parsed v t"
      have lt: "length t < length s" using parse_shorter(1) v by blast
      show "(case skip_ws t of [] \<Rightarrow> Syntax_error
         | d # r \<Rightarrow> if d = CHR '','' then and_then (parse_elements n (skip_ws r)) (\<lambda>vs u. Parsed (v # vs) u)
             else if d = CHR '']'' then Parsed [v] r else Syntax_error) \<noteq> Out_of_fuel"
      proof (cases "skip_ws t")
        case Nil
        then show ?thesis by simp
      next
        case sk: (Cons d t')
        have le: "length (d # t') \<le> length t" using skip_ws_length[of t] sk by simp
        show ?thesis
        proof (cases "d = CHR '',''")
          case True
          have "2 * length (skip_ws t') + 1 < n"
            using skip_ws_length[of t'] le lt f by simp
          then have "parse_elements n (skip_ws t') \<noteq> Out_of_fuel"
            using "4.IH"(2)[OF sk True] by blast
          then show ?thesis using sk True by (simp add: and_then_fuel)
        next
          case False
          then show ?thesis using sk by simp
        qed
      qed
    qed
  qed
next
  case (5 s)
  then show ?case by simp
next
  case (6 n s)
  show ?case
  proof
    assume f: "2 * length s + 1 < Suc n"
    show "parse_members (Suc n) s \<noteq> Out_of_fuel"
    proof (cases s)
      case Nil
      then show ?thesis by simp
    next
      case (Cons q t)
      show ?thesis
      proof (cases "q = CHR 0x22")
        case False
        then show ?thesis using Cons by simp
      next
        case q: True
        show ?thesis
        proof (cases "parse_chars t")
          case None
          then show ?thesis using Cons q by simp
        next
          case (Some kt)
          obtain k t1 where kt: "kt = (k, t1)" by (cases kt)
          have l1: "length t1 < length t" using parse_chars_shorter Some kt by blast
          show ?thesis
          proof (cases "skip_ws t1")
            case Nil
            then show ?thesis using Cons q Some kt by simp
          next
            case sk1: (Cons c t2)
            have l2: "length (c # t2) \<le> length t1" using skip_ws_length[of t1] sk1 by simp
            show ?thesis
            proof (cases "c = CHR '':''")
              case False
              then show ?thesis using Cons q Some kt sk1 by simp
            next
              case c: True
              have "2 * length (skip_ws t2) < n"
                using skip_ws_length[of t2] l1 l2 f Cons by simp
              then have pv: "parse_value n (skip_ws t2) \<noteq> Out_of_fuel"
                using "6.IH"(1)[OF Cons q sk1 c] by blast
              have "and_then (parse_value n (skip_ws t2)) (\<lambda>v u.
                   case skip_ws u of [] \<Rightarrow> Syntax_error
                   | d # u' \<Rightarrow> if d = CHR '','' then
                         and_then (parse_members n (skip_ws u')) (\<lambda>ms w. Parsed ((k, v) # ms) w)
                       else if d = CHR ''}'' then Parsed [(k, v)] u' else Syntax_error) \<noteq> Out_of_fuel"
              proof (rule and_then_fuel[OF pv])
                fix v u
                assume v: "parse_value n (skip_ws t2) = Parsed v u"
                have l3: "length u < length (skip_ws t2)" using parse_shorter(1) v by blast
                show "(case skip_ws u of [] \<Rightarrow> Syntax_error
                   | d # u' \<Rightarrow> if d = CHR '','' then
                         and_then (parse_members n (skip_ws u')) (\<lambda>ms w. Parsed ((k, v) # ms) w)
                       else if d = CHR ''}'' then Parsed [(k, v)] u' else Syntax_error) \<noteq> Out_of_fuel"
                proof (cases "skip_ws u")
                  case Nil
                  then show ?thesis by simp
                next
                  case sk2: (Cons d u')
                  have l4: "length (d # u') \<le> length u" using skip_ws_length[of u] sk2 by simp
                  show ?thesis
                  proof (cases "d = CHR '',''")
                    case True
                    have "2 * length (skip_ws u') + 1 < n"
                      using skip_ws_length[of u'] skip_ws_length[of t2] l1 l2 l3 l4 f Cons by simp
                    then have "parse_members n (skip_ws u') \<noteq> Out_of_fuel"
                      using "6.IH"(2)[OF Cons q sk1 c sk2 True] by blast
                    then show ?thesis using sk2 True by (simp add: and_then_fuel)
                  next
                    case False
                    then show ?thesis using sk2 by simp
                  qed
                qed
              qed
              then show ?thesis using Cons q Some kt sk1 c by simp
            qed
          qed
        qed
      qed
    qed
  qed
qed

lemma JSON_parse_fuel: "parse_value (2 * length s + 1) (skip_ws s) \<noteq> Out_of_fuel"
  using parse_fuel(1)[of "skip_ws s" "2 * length s + 1"] skip_ws_length[of s] by simp

subsection \<open>Lemmas on the store\<close>

lemma localStorage_set_textContent [simp]:
  "localStorage (set_textContent b t st) = localStorage st"
  by (simp add: set_textContent_def)

lemma localStorage_remove_node [simp]:
  "localStorage (remove_node n st) = localStorage st"
  by (simp add: remove_node_def)

lemma localStorage_update_buttons:
  "localStorage (page_of (update_buttons bs st)) = localStorage st"
proof (induction bs arbitrary: st)
  case Nil
  then show ?case by simp
next
  case (Cons b bs)
  show ?case
    by (simp add: Cons.IH Let_def split: sum.split option.split)
qed

lemma localStorage_update_description:
  "localStorage (page_of (update_description st)) = localStorage st"
  by (simp add: update_description_def split: option.split sum.split)

lemma localStorage_updateWatchlistButtons:
  "localStorage (page_of (updateWatchlistButtons st)) = localStorage st"
proof (cases "update_buttons (querySelectorAll_class ''watchlist-btn'' st) st")
  case (Done s)
  then have "localStorage s = localStorage st"
    using localStorage_update_buttons[of "querySelectorAll_class ''watchlist-btn'' st" st] by simp
  then show ?thesis
    using Done by (simp add: updateWatchlistButtons_def localStorage_update_description)
next
  case (Threw e s)
  then have "localStorage s = localStorage st"
    using localStorage_update_buttons[of "querySelectorAll_class ''watchlist-btn'' st" st] by simp
  then show ?thesis
    using Threw by (simp add: updateWatchlistButtons_def)
qed

lemma toggleWatchlist_storage:
  assumes "getWatchlist (localStorage st) = Inr (JArr items)"
  shows "localStorage (page_of (toggleWatchlist anime st))
       = saveWatchlist (if js_value anime \<in> set items
                        then filter (\<lambda>id. id \<noteq> js_value anime) items
                        else items @ [js_value anime]) (localStorage st)"
  using assms
  by (simp add: toggleWatchlist_def array_includes_def localStorage_updateWatchlistButtons)

lemma getWatchlist_saveWatchlist:
  "getWatchlist (saveWatchlist (map JStr xs) ls) = Inr (JArr (map JStr xs))"
  unfolding getWatchlist_def saveWatchlist_def
  using JSON_roundtrip_strings[of xs] by simp

lemma toggled_strings:
  "(if JStr a \<in> set (map JStr xs) then filter (\<lambda>id. id \<noteq> JStr a) (map JStr xs)
    else map JStr xs @ [JStr a])
   = map JStr (if a \<in> set xs then filter (\<lambda>x. x \<noteq> a) xs else xs @ [a])"
  by (auto simp: filter_map comp_def)

lemma toggleWatchlist_strings:
  assumes "getWatchlist (localStorage st) = Inr (JArr (map JStr xs))"
  shows "getWatchlist (localStorage (page_of (toggleWatchlist (Some a) st)))
       = Inr (JArr (map JStr (if a \<in> set xs then filter (\<lambda>x. x \<noteq> a) xs else xs @ [a])))"
  using toggleWatchlist_storage[OF assms, of "Some a"]
  by (simp only: js_value.simps toggled_strings getWatchlist_saveWatchlist)

subsection \<open>Lemmas on the refresh\<close>


lemma elements_set_textContent:
  "elements (set_textContent b t st) n =
     (if n = b then (elements st b)\<lparr>textContent := t\<rparr>
      else if parentNode (elements st n) = Element b then (elements st n)\<lparr>parentNode := Detached\<rparr>
      else elements st n)"
  by (simp add: set_textContent_def)


lemma set_textContent_keeps:
  "classList (elements (set_textContent b t st) n) = classList (elements st n)"
  "dataset_anime (elements (set_textContent b t st) n) = dataset_anime (elements st n)"
  "click_listeners (elements (set_textContent b t st) n) = click_listeners (elements st n)"
  "element_id (elements (set_textContent b t st) n) = element_id (elements st n)"
  "document_order (set_textContent b t st) = document_order st"
  by (simp_all add: set_textContent_def)

lemma remove_node_keeps:
  "classList (elements (remove_node p st) n) = classList (elements st n)"
  "dataset_anime (elements (remove_node p st) n) = dataset_anime (elements st n)"
  "click_listeners (elements (remove_node p st) n) = click_listeners (elements st n)"
  "element_id (elements (remove_node p st) n) = element_id (elements st n)"
  "textContent (elements (remove_node p st) n) = textContent (elements st n)"
  "document_order (remove_node p st) = document_order st"
  by (simp_all add: remove_node_def)

lemma update_buttons_keeps:
  "classList (elements (page_of (update_buttons bs st)) n) = classList (elements st n)
   \<and> dataset_anime (elements (page_of (update_buttons bs st)) n) = dataset_anime (elements st n)
   \<and> click_listeners (elements (page_of (update_buttons bs st)) n) = click_listeners (elements st n)
   \<and> element_id (elements (page_of (update_buttons bs st)) n) = element_id (elements st n)
   \<and> document_order (page_of (update_buttons bs st)) = document_order st"
proof (induction bs arbitrary: st)
  case Nil
  then show ?case by simp
next
  case (Cons b bs)
  show ?case
    by (simp add: Cons.IH Let_def set_textContent_keeps remove_node_keeps
        split: sum.split option.split)
qed




lemma isInWatchlist_array:
  "getWatchlist ls = Inr (JArr items) \<Longrightarrow> isInWatchlist a ls = Inr (js_value a \<in> set items)"
  by (simp add: isInWatchlist_def array_includes_def)




subsection \<open>Frames of the page operations\<close>

lemma reaches_document_cong:
  "(\<And>m. parentNode (e1 m) = parentNode (e2 m)) \<Longrightarrow>
   reaches_document k e1 n = reaches_document k e2 n"
  by (induction k arbitrary: n) (simp_all split: parent.split)

lemma queries_cong:
  assumes "\<And>m. parentNode (elements s m) = parentNode (elements t m)"
    and "\<And>m. classList (elements s m) = classList (elements t m)"
    and "\<And>m. element_id (elements s m) = element_id (elements t m)"
    and "document_order s = document_order t"
  shows "isConnected s n = isConnected t n"
    and "querySelectorAll_class c s = querySelectorAll_class c t"
    and "getElementById i s = getElementById i t"
    and "parentElement s n = parentElement t n"
    and "event_path k (elements s) n = event_path k (elements t) n"
proof -
  have rc: "reaches_document k (elements s) m = reaches_document k (elements t) m" for k m
    by (rule reaches_document_cong) (rule assms(1))
  show "isConnected s n = isConnected t n"
    by (simp add: isConnected_def rc assms(4))
  show "querySelectorAll_class c s = querySelectorAll_class c t"
    by (simp add: querySelectorAll_class_def isConnected_def rc assms)
  show "getElementById i s = getElementById i t"
    by (simp add: getElementById_def isConnected_def rc assms)
  show "parentElement s n = parentElement t n"
    by (simp add: parentElement_def assms(1))
  show "event_path k (elements s) n = event_path k (elements t) n"
    by (induction k arbitrary: n) (simp_all add: assms(1) split: parent.split)
qed

lemma addEventListener_keeps:
  "parentNode (elements (addEventListener b l st) n) = parentNode (elements st n)"
  "classList (elements (addEventListener b l st) n) = classList (elements st n)"
  "dataset_anime (elements (addEventListener b l st) n) = dataset_anime (elements st n)"
  "element_id (elements (addEventListener b l st) n) = element_id (elements st n)"
  "textContent (elements (addEventListener b l st) n) = textContent (elements st n)"
  "document_order (addEventListener b l st) = document_order st"
  "localStorage (addEventListener b l st) = localStorage st"
  "observer_target (addEventListener b l st) = observer_target st"
  by (simp_all add: addEventListener_def)

lemma fold_addEventListener_keeps:
  "parentNode (elements (fold (\<lambda>b. addEventListener b (f b)) bs st) n) = parentNode (elements st n)
   \<and> classList (elements (fold (\<lambda>b. addEventListener b (f b)) bs st) n) = classList (elements st n)
   \<and> dataset_anime (elements (fold (\<lambda>b. addEventListener b (f b)) bs st) n) = dataset_anime (elements st n)
   \<and> element_id (elements (fold (\<lambda>b. addEventListener b (f b)) bs st) n) = element_id (elements st n)
   \<and> textContent (elements (fold (\<lambda>b. addEventListener b (f b)) bs st) n) = textContent (elements st n)
   \<and> document_order (fold (\<lambda>b. addEventListener b (f b)) bs st) = document_order st
   \<and> localStorage (fold (\<lambda>b. addEventListener b (f b)) bs st) = localStorage st
   \<and> observer_target (fold (\<lambda>b. addEventListener b (f b)) bs st) = observer_target st"
  by (induction bs arbitrary: st) (simp_all add: addEventListener_keeps)

lemma fold_addEventListener_listeners:
  "click_listeners (elements (fold (\<lambda>b. addEventListener b (f b)) bs st) n)
     = click_listeners (elements st n) @ replicate (count_list bs n) (f n)"
proof (induction bs arbitrary: st)
  case Nil
  then show ?case by simp
next
  case (Cons b bs)
  have "click_listeners (elements (addEventListener b (f b) st) n)
          = click_listeners (elements st n) @ (if b = n then [f n] else [])"
    by (simp add: addEventListener_def)
  then show ?case
    by (simp add: Cons.IH replicate_app_Cons_same)
qed

lemma bind_keeps:
  "parentNode (elements (bind_watchlist_buttons st) n) = parentNode (elements st n)"
  "classList (elements (bind_watchlist_buttons st) n) = classList (elements st n)"
  "dataset_anime (elements (bind_watchlist_buttons st) n) = dataset_anime (elements st n)"
  "element_id (elements (bind_watchlist_buttons st) n) = element_id (elements st n)"
  "textContent (elements (bind_watchlist_buttons st) n) = textContent (elements st n)"
  "document_order (bind_watchlist_buttons st) = document_order st"
  "localStorage (bind_watchlist_buttons st) = localStorage st"
  "observer_target (bind_watchlist_buttons st) = observer_target st"
  unfolding bind_watchlist_buttons_def
  using fold_addEventListener_keeps[of Watchlist_click "querySelectorAll_class ''watchlist-btn'' st" st n]
  by simp_all

lemma bind_listeners:
  "click_listeners (elements (bind_watchlist_buttons st) n)
     = click_listeners (elements st n)
       @ replicate (count_list (querySelectorAll_class ''watchlist-btn'' st) n) (Watchlist_click n)"
  unfolding bind_watchlist_buttons_def by (rule fold_addEventListener_listeners)

lemma bind_queries:
  "querySelectorAll_class c (bind_watchlist_buttons st) = querySelectorAll_class c st"
  "getElementById i (bind_watchlist_buttons st) = getElementById i st"
  "isConnected (bind_watchlist_buttons st) n = isConnected st n"
  by (rule queries_cong; simp add: bind_keeps)+

lemma watchlist_init_no_description_button:
  "getElementById ''description-watchlist-btn'' st = None \<Longrightarrow>
   watchlist_init st = Threw TypeError (bind_watchlist_buttons st)"
  by (simp add: watchlist_init_def Let_def bind_queries)

lemma card_page_no_description_button:
  "getElementById ''description-watchlist-btn'' (card_page cls) = None"
  by (simp add: getElementById_def card_page_def blank_element_def)

lemma update_description_keeps:
  "classList (elements (page_of (update_description st)) n) = classList (elements st n)
   \<and> dataset_anime (elements (page_of (update_description st)) n) = dataset_anime (elements st n)
   \<and> click_listeners (elements (page_of (update_description st)) n) = click_listeners (elements st n)
   \<and> element_id (elements (page_of (update_description st)) n) = element_id (elements st n)
   \<and> document_order (page_of (update_description st)) = document_order st"
  by (simp add: update_description_def set_textContent_keeps split: option.split sum.split)

lemma updateWatchlistButtons_keeps:
  "classList (elements (page_of (updateWatchlistButtons st)) n) = classList (elements st n)"
  "dataset_anime (elements (page_of (updateWatchlistButtons st)) n) = dataset_anime (elements st n)"
  "click_listeners (elements (page_of (updateWatchlistButtons st)) n) = click_listeners (elements st n)"
  "element_id (elements (page_of (updateWatchlistButtons st)) n) = element_id (elements st n)"
  "document_order (page_of (updateWatchlistButtons st)) = document_order st"
proof -
  let ?r = "update_buttons (querySelectorAll_class ''watchlist-btn'' st) st"
  have k: "classList (elements (page_of ?r) n) = classList (elements st n)
   \<and> dataset_anime (elements (page_of ?r) n) = dataset_anime (elements st n)
   \<and> click_listeners (elements (page_of ?r) n) = click_listeners (elements st n)
   \<and> element_id (elements (page_of ?r) n) = element_id (elements st n)
   \<and> document_order (page_of ?r) = document_order st"
    by (rule update_buttons_keeps)
  have "classList (elements (page_of (updateWatchlistButtons st)) n) = classList (elements st n)
   \<and> dataset_anime (elements (page_of (updateWatchlistButtons st)) n) = dataset_anime (elements st n)
   \<and> click_listeners (elements (page_of (updateWatchlistButtons st)) n) = click_listeners (elements st n)
   \<and> element_id (elements (page_of (updateWatchlistButtons st)) n) = element_id (elements st n)
   \<and> document_order (page_of (updateWatchlistButtons st)) = document_order st"
  proof (cases ?r)
    case (Done s)
    then show ?thesis
      using k update_description_keeps[of s n] by (simp add: updateWatchlistButtons_def)
  next
    case (Threw e s)
    then show ?thesis using k by (simp add: updateWatchlistButtons_def)
  qed
  then show
    "classList (elements (page_of (updateWatchlistButtons st)) n) = classList (elements st n)"
    "dataset_anime (elements (page_of (updateWatchlistButtons st)) n) = dataset_anime (elements st n)"
    "click_listeners (elements (page_of (updateWatchlistButtons st)) n) = click_listeners (elements st n)"
    "element_id (elements (page_of (updateWatchlistButtons st)) n) = element_id (elements st n)"
    "document_order (page_of (updateWatchlistButtons st)) = document_order st"
    by simp_all
qed

lemma toggleWatchlist_keeps:
  "classList (elements (page_of (toggleWatchlist a st)) n) = classList (elements st n)"
  "dataset_anime (elements (page_of (toggleWatchlist a st)) n) = dataset_anime (elements st n)"
  "click_listeners (elements (page_of (toggleWatchlist a st)) n) = click_listeners (elements st n)"
  "element_id (elements (page_of (toggleWatchlist a st)) n) = element_id (elements st n)"
  "document_order (page_of (toggleWatchlist a st)) = document_order st"
  by (simp_all add: toggleWatchlist_def updateWatchlistButtons_keeps
      split: sum.split jsval.split)

subsection \<open>The observer on the example watchlist page\<close>

lemma watchlist_page_fields:
  "classList (elements watchlist_page 2) = [''watchlist-btn'']"
  "classList (elements watchlist_page 4) = [''watchlist-btn'']"
  "dataset_anime (elements watchlist_page 2) = Some ''a''"
  "dataset_anime (elements watchlist_page 4) = Some ''b''"
  "dataset_anime (elements watchlist_page 5) = Some ''c''"
  "click_listeners (elements watchlist_page n) = []"
  "document_order watchlist_page = [0, 1, 2, 3, 4, 5]"
  "getWatchlist (localStorage watchlist_page) = Inr (JArr [])"
  by (simp_all add: watchlist_page_def blank_element_def getWatchlist_def)

lemma watchlist_page_queries:
  "querySelectorAll_class ''watchlist-btn'' watchlist_page = []"
  "getElementById ''description-watchlist-btn'' watchlist_page = Some 5"
  "getElementById ''watchlist-grid'' watchlist_page = Some 0"
  by (simp_all add: querySelectorAll_class_def getElementById_def isConnected_def
      watchlist_page_def blank_element_def)

lemma watchlist_page_childless:
  "parentNode (elements watchlist_page n) \<noteq> Element 2"
  "parentNode (elements watchlist_page n) \<noteq> Element 4"
  "parentNode (elements watchlist_page n) \<noteq> Element 5"
  by (simp_all add: watchlist_page_def blank_element_def)

lemma append_cards_keeps:
  "classList (elements (append_cards st) n) = classList (elements st n)"
  "dataset_anime (elements (append_cards st) n) = dataset_anime (elements st n)"
  "click_listeners (elements (append_cards st) n) = click_listeners (elements st n)"
  "element_id (elements (append_cards st) n) = element_id (elements st n)"
  "document_order (append_cards st) = document_order st"
  "localStorage (append_cards st) = localStorage st"
  by (simp_all add: append_cards_def)

lemma append_cards_parents:
  "parentNode (elements (append_cards st) n)
     = (if n = 1 \<or> n = 3 then Element 0 else parentNode (elements st n))"
  by (simp add: append_cards_def)

lemma appended_queries:
  "querySelectorAll_class ''watchlist-btn'' (append_cards watchlist_page) = [2, 4]"
  "getElementById ''description-watchlist-btn'' (append_cards watchlist_page) = Some 5"
  "event_path 6 (elements (append_cards watchlist_page)) 2 = [2, 1, 0]"
  by (simp_all add: querySelectorAll_class_def getElementById_def isConnected_def
      append_cards_def watchlist_page_def blank_element_def eval_nat_numeral)

lemma appended_childless:
  "parentNode (elements (append_cards watchlist_page) n) \<noteq> Element 2"
  "parentNode (elements (append_cards watchlist_page) n) \<noteq> Element 4"
  "parentNode (elements (append_cards watchlist_page) n) \<noteq> Element 5"
  using watchlist_page_childless[of n] by (simp_all add: append_cards_parents)

text \<open>The initialisation of \<open>watchlist_page\<close> completes and installs the observer.\<close>

lemma watchlist_init_watchlist_page:
  "watchlist_init watchlist_page
     = Done ((set_textContent 5 ''Add to watchlist''
               (addEventListener 5 (Description_click 5) watchlist_page))
             \<lparr>observer_target := Some 0\<rparr>)"
proof -
  let ?a0 = "addEventListener 5 (Description_click 5) watchlist_page"
  let ?s0 = "set_textContent 5 ''Add to watchlist'' ?a0"
  have b: "bind_watchlist_buttons watchlist_page = watchlist_page"
    by (simp add: bind_watchlist_buttons_def watchlist_page_queries)
  have q: "querySelectorAll_class ''watchlist-btn'' ?a0 = []"
    using queries_cong(2)[of ?a0 watchlist_page "''watchlist-btn''"]
    by (simp add: addEventListener_keeps watchlist_page_queries)
  have d: "getElementById ''description-watchlist-btn'' ?a0 = Some 5"
    using queries_cong(3)[of ?a0 watchlist_page "''description-watchlist-btn''"]
    by (simp add: addEventListener_keeps watchlist_page_queries)
  have inw: "isInWatchlist (dataset_anime (elements ?a0 5)) (localStorage ?a0) = Inr False"
    using isInWatchlist_array[of "localStorage ?a0" "[]" "Some ''c''"]
    by (simp add: addEventListener_keeps watchlist_page_fields)
  have r: "updateWatchlistButtons ?a0 = Done ?s0"
    unfolding updateWatchlistButtons_def q update_buttons.simps and_next.simps
      update_description_def d option.case inw
    by simp
  have p: "parentNode (elements ?s0 n) = parentNode (elements watchlist_page n)" for n
    using watchlist_page_childless[of n] watchlist_page_childless[of 5]
    by (simp add: elements_set_textContent addEventListener_keeps)
  have g: "getElementById ''watchlist-grid'' ?s0 = Some 0"
    using queries_cong(3)[of ?s0 watchlist_page "''watchlist-grid''"] p
    by (simp add: set_textContent_keeps addEventListener_keeps watchlist_page_queries)
  show ?thesis
    unfolding watchlist_init_def Let_def b
    by (simp add: watchlist_page_queries r g)
qed

text \<open>
  The refresh of a page that agrees with the page of the appended cards in its tree,
  classes and identifiers, with an empty watchlist stored: the glyphs are set to the
  hollow star, the description button to its label, and nothing else changes.
\<close>

lemma refresh_like_appended:
  assumes "\<And>n. parentNode (elements st n) = parentNode (elements (append_cards watchlist_page) n)"
    and "\<And>n. classList (elements st n) = classList (elements watchlist_page n)"
    and "\<And>n. element_id (elements st n) = element_id (elements watchlist_page n)"
    and "\<And>n. dataset_anime (elements st n) = dataset_anime (elements watchlist_page n)"
    and "document_order st = document_order watchlist_page"
    and "getWatchlist (localStorage st) = Inr (JArr [])"
  shows "updateWatchlistButtons st
           = Done (set_textContent 5 ''Add to watchlist''
                    (set_textContent 4 star_hollow (set_textContent 2 star_hollow st)))"
    and "parentNode (elements (set_textContent 5 ''Add to watchlist''
                    (set_textContent 4 star_hollow (set_textContent 2 star_hollow st))) n)
           = parentNode (elements (append_cards watchlist_page) n)"
proof -
  let ?g = "append_cards watchlist_page"
  let ?s1 = "set_textContent 2 star_hollow st"
  let ?s2 = "set_textContent 4 star_hollow ?s1"
  let ?s3 = "set_textContent 5 ''Add to watchlist'' ?s2"
  have bs: "querySelectorAll_class ''watchlist-btn'' st = [2, 4]"
    using queries_cong(2)[of st ?g "''watchlist-btn''"] assms
    by (simp add: append_cards_keeps appended_queries)
  have in2: "isInWatchlist (dataset_anime (elements st 2)) (localStorage st) = Inr False"
    using isInWatchlist_array[OF assms(6)] by simp
  have in4: "isInWatchlist (dataset_anime (elements ?s1 4)) (localStorage ?s1) = Inr False"
    using isInWatchlist_array[of "localStorage ?s1" "[]"] assms(6) by simp
  have in5: "isInWatchlist (dataset_anime (elements ?s2 5)) (localStorage ?s2) = Inr False"
    using isInWatchlist_array[of "localStorage ?s2" "[]"] assms(6) by simp
  have nr2: "\<not> is_remove_btn (elements ?s1 2)"
    by (simp add: is_remove_btn_def set_textContent_keeps assms(2) watchlist_page_fields)
  have nr4: "\<not> is_remove_btn (elements ?s2 4)"
    by (simp add: is_remove_btn_def set_textContent_keeps assms(2) watchlist_page_fields)
  have ub: "update_buttons [2, 4] st = Done ?s2"
    using in2 in4 nr2 nr4 by (simp add: Let_def)
  have p2: "parentNode (elements ?s2 m) = parentNode (elements ?g m)" for m
    using appended_childless[of m] appended_childless[of 2] appended_childless[of 4]
    by (simp add: elements_set_textContent assms(1))
  have "getElementById ''description-watchlist-btn'' ?s2
          = getElementById ''description-watchlist-btn'' ?g"
    by (rule queries_cong(3))
      (simp_all add: p2 set_textContent_keeps append_cards_keeps assms)
  then have gd: "getElementById ''description-watchlist-btn'' ?s2 = Some 5"
    by (simp add: appended_queries)
  show "updateWatchlistButtons st = Done ?s3"
    unfolding updateWatchlistButtons_def bs ub and_next.simps update_description_def gd
      option.case in5
    by simp
  show "parentNode (elements ?s3 n) = parentNode (elements ?g n)"
    using appended_childless[of n] appended_childless[of 5] p2[of n] p2[of 5]
    by (simp add: elements_set_textContent)
qed

lemma run_listeners_watchlist_twice:
  assumes "getWatchlist (localStorage st) = Inr (JArr (map JStr xs))"
    and "dataset_anime (elements st b) = Some a"
  shows "getWatchlist (localStorage (snd (run_listeners [Watchlist_click b, Watchlist_click b] e st)))
           = Inr (JArr (map JStr (filter (\<lambda>x. x \<noteq> a) xs @ (if a \<in> set xs then [a] else []))))"
    and "click_listeners (elements (snd (run_listeners [Watchlist_click b, Watchlist_click b] e st)) n)
           = click_listeners (elements st n)"
    and "\<not> propagationStopped e \<Longrightarrow>
         \<not> propagationStopped (fst (run_listeners [Watchlist_click b, Watchlist_click b] e st))"
proof -
  let ?t1 = "page_of (toggleWatchlist (Some a) st)"
  let ?t2 = "page_of (toggleWatchlist (Some a) ?t1)"
  let ?ys = "if a \<in> set xs then filter (\<lambda>x. x \<noteq> a) xs else xs @ [a]"
  have a1: "dataset_anime (elements ?t1 b) = Some a"
    by (simp add: toggleWatchlist_keeps assms(2))
  have run: "run_listeners [Watchlist_click b, Watchlist_click b] e st
               = (e\<lparr>defaultPrevented := True\<rparr>, ?t2)"
    by (simp add: assms(2) a1)
  have one: "getWatchlist (localStorage ?t1) = Inr (JArr (map JStr ?ys))"
    by (rule toggleWatchlist_strings[OF assms(1)])
  have two: "getWatchlist (localStorage ?t2)
      = Inr (JArr (map JStr (if a \<in> set ?ys then filter (\<lambda>x. x \<noteq> a) ?ys else ?ys @ [a])))"
    by (rule toggleWatchlist_strings[OF one])
  have eq: "(if a \<in> set ?ys then filter (\<lambda>x. x \<noteq> a) ?ys else ?ys @ [a])
      = filter (\<lambda>x. x \<noteq> a) xs @ (if a \<in> set xs then [a] else [])"
    by (auto simp: filter_id_conv)
  show "getWatchlist (localStorage (snd (run_listeners [Watchlist_click b, Watchlist_click b] e st)))
           = Inr (JArr (map JStr (filter (\<lambda>x. x \<noteq> a) xs @ (if a \<in> set xs then [a] else []))))"
    unfolding run snd_conv using two eq by simp
  show "click_listeners (elements (snd (run_listeners [Watchlist_click b, Watchlist_click b] e st)) n)
           = click_listeners (elements st n)"
    unfolding run snd_conv by (simp add: toggleWatchlist_keeps)
  show "\<not> propagationStopped e \<Longrightarrow>
         \<not> propagationStopped (fst (run_listeners [Watchlist_click b, Watchlist_click b] e st))"
    unfolding run fst_conv by simp
qed

lemma dispatch_no_listeners:
  "(\<And>n. n \<in> set path \<Longrightarrow> click_listeners (elements st n) = []) \<Longrightarrow>
   dispatch path e st = (e, st)"
  by (induction path) simp_all

lemma initialised_fields:
  "parentNode (elements (page_of (watchlist_init watchlist_page)) n)
     = parentNode (elements watchlist_page n)"
  "classList (elements (page_of (watchlist_init watchlist_page)) n)
     = classList (elements watchlist_page n)"
  "element_id (elements (page_of (watchlist_init watchlist_page)) n)
     = element_id (elements watchlist_page n)"
  "dataset_anime (elements (page_of (watchlist_init watchlist_page)) n)
     = dataset_anime (elements watchlist_page n)"
  "click_listeners (elements (page_of (watchlist_init watchlist_page)) n)
     = (if n = 5 then [Description_click 5] else [])"
  "document_order (page_of (watchlist_init watchlist_page)) = document_order watchlist_page"
  "localStorage (page_of (watchlist_init watchlist_page)) = localStorage watchlist_page"
  "observer_target (page_of (watchlist_init watchlist_page)) = Some 0"
  using watchlist_page_childless[of n] watchlist_page_childless[of 5]
  by (simp_all add: watchlist_init_watchlist_page elements_set_textContent
      set_textContent_keeps addEventListener_keeps watchlist_page_fields)
    (simp_all add: addEventListener_def watchlist_page_fields)

text \<open>The callback on the page of the appended cards binds and refreshes twice.\<close>

lemma rendered_page_run:
  shows "rendered_page
     = set_textContent 5 ''Add to watchlist'' (set_textContent 4 star_hollow
         (set_textContent 2 star_hollow
           (bind_watchlist_buttons
              (set_textContent 5 ''Add to watchlist'' (set_textContent 4 star_hollow
                 (set_textContent 2 star_hollow
                    (bind_watchlist_buttons
                       (append_cards (page_of (watchlist_init watchlist_page))))))))))"
  and "parentNode (elements rendered_page n)
         = parentNode (elements (append_cards watchlist_page) n)"
  and "click_listeners (elements rendered_page n)
         = (if n = 5 then [Description_click 5] else [])
           @ replicate (count_list [2, 4] n) (Watchlist_click n)
           @ replicate (count_list [2, 4] n) (Watchlist_click n)"
proof -
  let ?st2 = "append_cards (page_of (watchlist_init watchlist_page))"
  let ?b0 = "bind_watchlist_buttons ?st2"
  let ?r1 = "set_textContent 5 ''Add to watchlist'' (set_textContent 4 star_hollow
               (set_textContent 2 star_hollow ?b0))"
  let ?b1 = "bind_watchlist_buttons ?r1"
  let ?r2 = "set_textContent 5 ''Add to watchlist'' (set_textContent 4 star_hollow
               (set_textContent 2 star_hollow ?b1))"
  have p0: "parentNode (elements ?st2 m) = parentNode (elements (append_cards watchlist_page) m)" for m
    by (simp add: append_cards_parents initialised_fields)
  have run0: "updateWatchlistButtons ?b0 = Done ?r1"
    by (rule refresh_like_appended(1))
      (simp_all add: bind_keeps p0 append_cards_keeps initialised_fields watchlist_page_fields)
  have p1: "parentNode (elements ?r1 m) = parentNode (elements (append_cards watchlist_page) m)" for m
    by (rule refresh_like_appended(2))
      (simp_all add: bind_keeps p0 append_cards_keeps initialised_fields watchlist_page_fields)
  have run1: "updateWatchlistButtons ?b1 = Done ?r2"
    by (rule refresh_like_appended(1))
      (simp_all add: bind_keeps p1 set_textContent_keeps append_cards_keeps
        initialised_fields watchlist_page_fields)
  have p2: "parentNode (elements ?r2 m) = parentNode (elements (append_cards watchlist_page) m)" for m
    by (rule refresh_like_appended(2))
      (simp_all add: bind_keeps p1 set_textContent_keeps append_cards_keeps
        initialised_fields watchlist_page_fields)
  show run: "rendered_page = ?r2"
    by (simp add: rendered_page_def run0 run1)
  show "parentNode (elements rendered_page n)
         = parentNode (elements (append_cards watchlist_page) n)"
    unfolding run by (rule p2)
  have q0: "querySelectorAll_class ''watchlist-btn'' ?st2 = [2, 4]"
    using queries_cong(2)[of ?st2 "append_cards watchlist_page" "''watchlist-btn''"] p0
    by (simp add: append_cards_keeps initialised_fields appended_queries)
  have q1: "querySelectorAll_class ''watchlist-btn'' ?r1 = [2, 4]"
    using queries_cong(2)[of ?r1 "append_cards watchlist_page" "''watchlist-btn''"] p1
    by (simp add: set_textContent_keeps bind_keeps append_cards_keeps initialised_fields
        appended_queries)
  show "click_listeners (elements rendered_page n)
         = (if n = 5 then [Description_click 5] else [])
           @ replicate (count_list [2, 4] n) (Watchlist_click n)
           @ replicate (count_list [2, 4] n) (Watchlist_click n)"
    unfolding run
    by (simp only: set_textContent_keeps bind_listeners q0 q1 append_cards_keeps
        initialised_fields append_assoc)
qed

subsection \<open>Lemmas on clicks\<close>

lemma run_listener_propagation:
  "propagationStopped (fst (run_listener l e st)) = propagationStopped e"
  by (cases l) simp_all

lemma run_listeners_propagation:
  "propagationStopped (fst (run_listeners ls e st)) = propagationStopped e"
proof (induction ls arbitrary: e st)
  case Nil
  then show ?case by simp
next
  case (Cons l ls)
  show ?case
    using run_listener_propagation[of l e st]
    by (simp add: Cons.IH split_beta del: run_listener.simps)
qed

lemma dispatch_propagation:
  "propagationStopped (fst (dispatch path e st)) = propagationStopped e"
proof (induction path arbitrary: e st)
  case Nil
  then show ?case by simp
next
  case (Cons n path)
  show ?case
    using run_listeners_propagation[of "click_listeners (elements st n)" e st]
    by (simp add: Cons.IH split_beta)
qed

lemma click_propagation: "\<not> propagationStopped (fst (click target st))"
  by (simp add: click_def dispatch_propagation)

lemma toggleWatchlist_strings_run:
  assumes "getWatchlist (localStorage st) = Inr (JArr (map JStr xs))"
  shows "toggleWatchlist (Some a) st
         = updateWatchlistButtons
             (st\<lparr>localStorage :=
                  saveWatchlist (map JStr (if a \<in> set xs then filter (\<lambda>x. x \<noteq> a) xs else xs @ [a]))
                    (localStorage st)\<rparr>)"
proof -
  have "toggleWatchlist (Some a) st
         = updateWatchlistButtons
             (st\<lparr>localStorage :=
                  saveWatchlist (if JStr a \<in> set (map JStr xs)
                                 then filter (\<lambda>id. id \<noteq> JStr a) (map JStr xs)
                                 else map JStr xs @ [JStr a])
                    (localStorage st)\<rparr>)"
    by (simp add: toggleWatchlist_def array_includes_def assms)
  then show ?thesis
    by (simp only: toggled_strings)
qed

subsection \<open>The store: toggling and decoding\<close>

text \<open>
  C1 (as amended). One call of \<open>toggleWatchlist\<close> removes every occurrence of the
  identifier from the stored sequence when it occurs there, and appends it otherwise.
  Two calls with the same identifier leave the entries other than the identifier in their
  order, followed by the identifier once if it occurred. That is the original sequence
  if and only if the identifier did not occur in it or occurred once, as its last entry.
  The sequence after the second call is never the sequence after the first, and the
  identifier is in the watchlist after the second call exactly if it was at the start.
\<close>

theorem toggle_twice:
  assumes "getWatchlist (localStorage st) = Inr (JArr (map JStr xs))"
  shows "getWatchlist (localStorage (page_of (toggleWatchlist (Some a) st)))
         = Inr (JArr (map JStr (if a \<in> set xs then filter (\<lambda>x. x \<noteq> a) xs else xs @ [a])))
       \<and> getWatchlist (localStorage (page_of (toggleWatchlist (Some a)
            (page_of (toggleWatchlist (Some a) st)))))
         = Inr (JArr (map JStr (filter (\<lambda>x. x \<noteq> a) xs @ (if a \<in> set xs then [a] else []))))
       \<and> ((getWatchlist (localStorage (page_of (toggleWatchlist (Some a)
            (page_of (toggleWatchlist (Some a) st)))))
            = getWatchlist (localStorage st))
          = (a \<notin> set xs \<or> (\<exists>ys. xs = ys @ [a] \<and> a \<notin> set ys)))
       \<and> getWatchlist (localStorage (page_of (toggleWatchlist (Some a)
            (page_of (toggleWatchlist (Some a) st)))))
         \<noteq> getWatchlist (localStorage (page_of (toggleWatchlist (Some a) st)))
       \<and> isInWatchlist (Some a) (localStorage (page_of (toggleWatchlist (Some a) st)))
         = Inr (a \<notin> set xs)
       \<and> isInWatchlist (Some a) (localStorage (page_of (toggleWatchlist (Some a)
            (page_of (toggleWatchlist (Some a) st)))))
         = isInWatchlist (Some a) (localStorage st)"
proof -
  let ?st1 = "page_of (toggleWatchlist (Some a) st)"
  let ?st2 = "page_of (toggleWatchlist (Some a) ?st1)"
  let ?ys = "if a \<in> set xs then filter (\<lambda>x. x \<noteq> a) xs else xs @ [a]"
  let ?zs = "filter (\<lambda>x. x \<noteq> a) xs @ (if a \<in> set xs then [a] else [])"
  have one: "getWatchlist (localStorage ?st1) = Inr (JArr (map JStr ?ys))"
    by (rule toggleWatchlist_strings[OF assms])
  have two: "getWatchlist (localStorage ?st2)
      = Inr (JArr (map JStr (if a \<in> set ?ys then filter (\<lambda>x. x \<noteq> a) ?ys else ?ys @ [a])))"
    by (rule toggleWatchlist_strings[OF one])
  have eq: "(if a \<in> set ?ys then filter (\<lambda>x. x \<noteq> a) ?ys else ?ys @ [a]) = ?zs"
    by (auto simp: filter_id_conv)
  have g: "getWatchlist (localStorage ?st2) = Inr (JArr (map JStr ?zs))"
    using two eq by simp
  have inj: "(map JStr us = map JStr vs) = (us = vs)" for us vs
    by (simp add: inj_map_eq_map inj_on_def)
  have same: "(?zs = xs) = (a \<notin> set xs \<or> (\<exists>ys. xs = ys @ [a] \<and> a \<notin> set ys))"
  proof
    assume z: "?zs = xs"
    show "a \<notin> set xs \<or> (\<exists>ys. xs = ys @ [a] \<and> a \<notin> set ys)"
    proof (cases "a \<in> set xs")
      case True
      then have "xs = filter (\<lambda>x. x \<noteq> a) xs @ [a]" using z by simp
      moreover have "a \<notin> set (filter (\<lambda>x. x \<noteq> a) xs)" by simp
      ultimately show ?thesis by blast
    next
      case False
      then show ?thesis by simp
    qed
  next
    assume "a \<notin> set xs \<or> (\<exists>ys. xs = ys @ [a] \<and> a \<notin> set ys)"
    then show "?zs = xs" by (auto simp: filter_id_conv)
  qed
  have restored: "(getWatchlist (localStorage ?st2) = getWatchlist (localStorage st))
      = (a \<notin> set xs \<or> (\<exists>ys. xs = ys @ [a] \<and> a \<notin> set ys))"
    unfolding g assms using same by (simp only: sum.inject jsval.inject inj simp_thms)
  have "?zs \<noteq> ?ys"
  proof (cases "a \<in> set xs")
    case True
    then show ?thesis by simp
  next
    case False
    then have "filter (\<lambda>x. x \<noteq> a) xs = xs" by (auto simp: filter_id_conv)
    then show ?thesis using False by simp
  qed
  then have differ: "getWatchlist (localStorage ?st2) \<noteq> getWatchlist (localStorage ?st1)"
    unfolding g one by (simp only: sum.inject jsval.inject inj simp_thms)
  have m1: "isInWatchlist (Some a) (localStorage ?st1) = Inr (a \<notin> set xs)"
    unfolding isInWatchlist_array[OF one] by auto
  have m2: "isInWatchlist (Some a) (localStorage ?st2) = isInWatchlist (Some a) (localStorage st)"
    unfolding isInWatchlist_array[OF g] isInWatchlist_array[OF assms] by auto
  show ?thesis
    using one g restored differ m1 m2 by (simp only: simp_thms)
qed

lemma stored_ab:
  "[CHR ''['', CHR 0x22, CHR ''a'', CHR 0x22, CHR '','', CHR 0x22, CHR ''b'', CHR 0x22, CHR '']'']
     = JSON_stringify (JArr (map JStr [''a'', ''b'']))"
  by (simp add: quote_def quote_char_def)

lemma stored_b:
  "[CHR ''['', CHR 0x22, CHR ''b'', CHR 0x22, CHR '']''] = JSON_stringify (JArr (map JStr [''b'']))"
  by (simp add: quote_def quote_char_def)

lemma getWatchlist_stored_page:
  "getWatchlist (localStorage (stored_page (JSON_stringify (JArr (map JStr xs)))))
     = Inr (JArr (map JStr xs))"
  using getWatchlist_saveWatchlist[of xs Map.empty]
  by (simp add: stored_page_def saveWatchlist_def)

text \<open>The theorem on the stored watchlist \<^verbatim>\<open>["b"]\<close> and the identifier \<^verbatim>\<open>a\<close>.\<close>

theorem toggle_twice_witness:
  "getWatchlist (localStorage (stored_page [CHR ''['', CHR 0x22, CHR ''b'', CHR 0x22, CHR '']'']))
     = Inr (JArr [JStr ''b''])
   \<and> getWatchlist (localStorage (page_of (toggleWatchlist (Some ''a'')
        (stored_page [CHR ''['', CHR 0x22, CHR ''b'', CHR 0x22, CHR '']'']))))
     = Inr (JArr [JStr ''b'', JStr ''a''])
   \<and> getWatchlist (localStorage (page_of (toggleWatchlist (Some ''a'')
        (page_of (toggleWatchlist (Some ''a'')
           (stored_page [CHR ''['', CHR 0x22, CHR ''b'', CHR 0x22, CHR '']''])))))) 
     = Inr (JArr [JStr ''b''])
   \<and> isInWatchlist (Some ''a'') (localStorage (page_of (toggleWatchlist (Some ''a'')
        (stored_page [CHR ''['', CHR 0x22, CHR ''b'', CHR 0x22, CHR '']'']))))
     = Inr True"
proof -
  have h: "getWatchlist (localStorage (stored_page [CHR ''['', CHR 0x22, CHR ''b'', CHR 0x22, CHR '']'']))
     = Inr (JArr (map JStr [''b'']))"
    unfolding stored_b by (rule getWatchlist_stored_page)
  note w = toggle_twice[OF h, of "''a''"]
  show ?thesis
    using h w[THEN conjunct1] w[THEN conjunct2, THEN conjunct1]
      w[THEN conjunct2, THEN conjunct2, THEN conjunct2, THEN conjunct2, THEN conjunct1]
    by simp
qed

text \<open>
  On the stored watchlist \<^verbatim>\<open>["a","b"]\<close>, toggling \<^verbatim>\<open>a\<close> twice leaves \<^verbatim>\<open>["b","a"]\<close>.
\<close>

theorem toggle_twice_counterexample:
  "getWatchlist (localStorage (stored_page
      [CHR ''['', CHR 0x22, CHR ''a'', CHR 0x22, CHR '','', CHR 0x22, CHR ''b'', CHR 0x22, CHR '']'']))
     = Inr (JArr [JStr ''a'', JStr ''b''])
   \<and> getWatchlist (localStorage (page_of (toggleWatchlist (Some ''a'')
        (page_of (toggleWatchlist (Some ''a'') (stored_page
      [CHR ''['', CHR 0x22, CHR ''a'', CHR 0x22, CHR '','', CHR 0x22, CHR ''b'', CHR 0x22, CHR '']''])))))) 
     = Inr (JArr [JStr ''b'', JStr ''a''])"
proof -
  let ?pg = "stored_page
      [CHR ''['', CHR 0x22, CHR ''a'', CHR 0x22, CHR '','', CHR 0x22, CHR ''b'', CHR 0x22, CHR '']'']"
  have h: "getWatchlist (localStorage ?pg) = Inr (JArr (map JStr [''a'', ''b'']))"
    unfolding stored_ab by (rule getWatchlist_stored_page)
  have one: "getWatchlist (localStorage (page_of (toggleWatchlist (Some ''a'') ?pg)))
      = Inr (JArr (map JStr [''b'']))"
    using toggleWatchlist_strings[OF h, of "''a''"] by simp
  have two: "getWatchlist (localStorage (page_of (toggleWatchlist (Some ''a'')
        (page_of (toggleWatchlist (Some ''a'') ?pg)))))
      = Inr (JArr (map JStr [''b'', ''a'']))"
    using toggleWatchlist_strings[OF one, of "''a''"] by simp
  show ?thesis using h two by simp
qed

text \<open>
  C2 (as amended). \<open>getWatchlist\<close> returns the empty sequence when nothing is stored and
  when the stored text is the empty string (which is not a JSON text). For every other
  stored text it returns the value that \<^verbatim>\<open>JSON.parse\<close> decodes from it, which is the sequence
  of identifiers when the text is the one written for a sequence of strings, and it raises
  the SyntaxError of \<^verbatim>\<open>JSON.parse\<close> when the text does not parse.
\<close>

theorem getWatchlist_decodes:
  "(ls WATCHLIST_KEY = None \<or> ls WATCHLIST_KEY = Some [] \<longrightarrow> getWatchlist ls = Inr (JArr []))
   \<and> JSON_parse [] = Inl SyntaxError
   \<and> (ls WATCHLIST_KEY = Some s \<and> s \<noteq> [] \<and> JSON_parse s = Inr v
        \<longrightarrow> getWatchlist ls = Inr v)
   \<and> (ls WATCHLIST_KEY = Some (JSON_stringify (JArr (map JStr ids)))
        \<longrightarrow> getWatchlist ls = Inr (JArr (map JStr ids)))
   \<and> (ls WATCHLIST_KEY = Some s \<and> s \<noteq> [] \<and> JSON_parse s = Inl SyntaxError
        \<longrightarrow> getWatchlist ls = Inl SyntaxError)"
proof -
  have empty: "JSON_parse [] = Inl SyntaxError"
    by code_simp
  have written: "JSON_stringify (JArr (map JStr ids)) \<noteq> []"
    by simp
  have absent: "ls WATCHLIST_KEY = None \<or> ls WATCHLIST_KEY = Some [] \<longrightarrow> getWatchlist ls = Inr (JArr [])"
    by (auto simp: getWatchlist_def)
  have parsed: "ls WATCHLIST_KEY = Some t \<and> t \<noteq> [] \<longrightarrow> getWatchlist ls = JSON_parse t" for t
    by (simp add: getWatchlist_def)
  show ?thesis
    using absent empty parsed[of s] parsed[of "JSON_stringify (JArr (map JStr ids))"] written
      JSON_roundtrip_strings[of ids]
    by (simp only: simp_thms) metis
qed

lemma not_json: "JSON_parse ''not json'' = Inl SyntaxError"
  by code_simp

lemma spaced_b:
  "JSON_parse [CHR '' '', CHR ''['', CHR '' '', CHR 0x22, CHR ''b'', CHR 0x22, CHR '' '', CHR '']'', CHR 0x0A]
     = Inr (JArr [JStr ''b''])"
  by code_simp

text \<open>
  The theorem with nothing stored, with the empty string, with the text \<^verbatim>\<open> [ "b" ]\<close> and
  a line feed, with the text that \<open>saveWatchlist\<close> writes for \<^verbatim>\<open>b\<close>, and with an open brace.
\<close>

theorem getWatchlist_decodes_witness:
  "getWatchlist Map.empty = Inr (JArr [])
   \<and> getWatchlist (Map.empty(WATCHLIST_KEY \<mapsto> [])) = Inr (JArr [])
   \<and> getWatchlist (Map.empty(WATCHLIST_KEY \<mapsto>
        [CHR '' '', CHR ''['', CHR '' '', CHR 0x22, CHR ''b'', CHR 0x22, CHR '' '', CHR '']'', CHR 0x0A]))
       = Inr (JArr [JStr ''b''])
   \<and> getWatchlist (Map.empty(WATCHLIST_KEY \<mapsto> [CHR ''['', CHR 0x22, CHR ''b'', CHR 0x22, CHR '']'']))
       = Inr (JArr [JStr ''b''])
   \<and> getWatchlist (Map.empty(WATCHLIST_KEY \<mapsto> ''{'')) = Inl SyntaxError"
proof -
  let ?spaced = "[CHR '' '', CHR ''['', CHR '' '', CHR 0x22, CHR ''b'', CHR 0x22, CHR '' '', CHR '']'', CHR 0x0A]"
  have p: "JSON_parse ''{'' = Inl SyntaxError" by code_simp
  have a: "getWatchlist Map.empty = Inr (JArr [])"
    using getWatchlist_decodes[of Map.empty "[]" JNull "[]", THEN conjunct1] by simp
  have b: "getWatchlist (Map.empty(WATCHLIST_KEY \<mapsto> [])) = Inr (JArr [])"
    using getWatchlist_decodes[of "Map.empty(WATCHLIST_KEY \<mapsto> [])" "[]" JNull "[]", THEN conjunct1]
    by simp
  have c: "getWatchlist (Map.empty(WATCHLIST_KEY \<mapsto> ?spaced)) = Inr (JArr [JStr ''b''])"
    using getWatchlist_decodes[of "Map.empty(WATCHLIST_KEY \<mapsto> ?spaced)" ?spaced
        "JArr [JStr ''b'']" "[]", THEN conjunct2, THEN conjunct2, THEN conjunct1] spaced_b
    by simp
  have d: "getWatchlist (Map.empty(WATCHLIST_KEY \<mapsto> [CHR ''['', CHR 0x22, CHR ''b'', CHR 0x22, CHR '']'']))
       = Inr (JArr [JStr ''b''])"
    using getWatchlist_decodes[of "Map.empty(WATCHLIST_KEY \<mapsto> JSON_stringify (JArr (map JStr [''b''])))"
        "[]" JNull "[''b'']", THEN conjunct2, THEN conjunct2, THEN conjunct2, THEN conjunct1]
    unfolding stored_b[symmetric] by simp
  have e: "getWatchlist (Map.empty(WATCHLIST_KEY \<mapsto> ''{'')) = Inl SyntaxError"
    using getWatchlist_decodes[of "Map.empty(WATCHLIST_KEY \<mapsto> ''{'')" "''{''" JNull "[]",
        THEN conjunct2, THEN conjunct2, THEN conjunct2, THEN conjunct2] p
    by simp
  show ?thesis
    using a b c d e by (simp only: simp_thms)
qed

text \<open>The stored text \<^verbatim>\<open>not json\<close> is not treated as an empty watchlist.\<close>

theorem getWatchlist_corrupt_counterexample:
  "getWatchlist (Map.empty(WATCHLIST_KEY \<mapsto> ''not json'')) = Inl SyntaxError"
  using not_json by (simp add: getWatchlist_def)

text \<open>
  C10. \<open>toggleWatchlist\<close> of an identifier keeps the entries other than the identifier,
  in their order, and the membership of every other identifier.
\<close>

theorem toggle_frame:
  assumes "getWatchlist (localStorage st) = Inr (JArr (map JStr xs))"
  shows "\<exists>ys. getWatchlist (localStorage (page_of (toggleWatchlist (Some a) st)))
                = Inr (JArr (map JStr ys))
            \<and> filter (\<lambda>x. x \<noteq> a) ys = filter (\<lambda>x. x \<noteq> a) xs
            \<and> (\<forall>b. b \<noteq> a \<longrightarrow>
                  isInWatchlist (Some b) (localStorage (page_of (toggleWatchlist (Some a) st)))
                    = isInWatchlist (Some b) (localStorage st))"
proof -
  let ?ys = "if a \<in> set xs then filter (\<lambda>x. x \<noteq> a) xs else xs @ [a]"
  have one: "getWatchlist (localStorage (page_of (toggleWatchlist (Some a) st)))
               = Inr (JArr (map JStr ?ys))"
    by (rule toggleWatchlist_strings[OF assms])
  have ord: "filter (\<lambda>x. x \<noteq> a) ?ys = filter (\<lambda>x. x \<noteq> a) xs"
    by simp
  have mem: "b \<noteq> a \<Longrightarrow> (b \<in> set ?ys) = (b \<in> set xs)" for b
    by auto
  have "\<forall>b. b \<noteq> a \<longrightarrow>
          isInWatchlist (Some b) (localStorage (page_of (toggleWatchlist (Some a) st)))
            = isInWatchlist (Some b) (localStorage st)"
    using mem by (auto simp: isInWatchlist_def one assms array_includes_def)
  then show ?thesis using one ord by blast
qed

theorem toggle_frame_witness:
  "\<exists>ys. getWatchlist (localStorage (page_of (toggleWatchlist (Some ''a'') (stored_page
      [CHR ''['', CHR 0x22, CHR ''a'', CHR 0x22, CHR '','', CHR 0x22, CHR ''b'', CHR 0x22, CHR '']'']))))
          = Inr (JArr (map JStr ys))
      \<and> filter (\<lambda>x. x \<noteq> ''a'') ys = [''b'']"
proof -
  let ?pg = "stored_page
      [CHR ''['', CHR 0x22, CHR ''a'', CHR 0x22, CHR '','', CHR 0x22, CHR ''b'', CHR 0x22, CHR '']'']"
  have h: "getWatchlist (localStorage ?pg) = Inr (JArr (map JStr [''a'', ''b'']))"
    unfolding stored_ab by (rule getWatchlist_stored_page)
  show ?thesis
    using toggle_frame[OF h, of "''a''"] by auto
qed

subsection \<open>The refresh of remove-only controls\<close>



lemma card_page_buttons:
  "querySelectorAll_class ''watchlist-btn'' (card_page cls)
     = (if ''watchlist-btn'' \<in> set cls then [1] else [])"
  by (simp add: querySelectorAll_class_def card_page_def isConnected_def blank_element_def)

lemma card_page_stored: "getWatchlist (localStorage (card_page cls)) = Inr (JArr [])"
  by (simp add: getWatchlist_def card_page_def)









subsection \<open>The click handler of a control\<close>

text \<open>
  C5 (as amended). The click listener bound to a control toggles the control's
  identifier in the store and then refreshes the views on the updated store; it cancels
  the default action of the click and leaves the propagation of the event as it was.
  Every control that \<open>bind_watchlist_buttons\<close> finds carries such a listener, and no click
  on the page ends with its propagation stopped.
\<close>

theorem watchlist_click_handler:
  assumes "getWatchlist (localStorage st) = Inr (JArr (map JStr xs))"
    and "dataset_anime (elements st btn) = Some a"
  shows "run_listener (Watchlist_click btn) e st
           = (e\<lparr>defaultPrevented := True\<rparr>,
              updateWatchlistButtons
                (st\<lparr>localStorage :=
                     saveWatchlist (map JStr (if a \<in> set xs then filter (\<lambda>x. x \<noteq> a) xs else xs @ [a]))
                       (localStorage st)\<rparr>))
       \<and> getWatchlist (localStorage (page_of (snd (run_listener (Watchlist_click btn) e st))))
           = Inr (JArr (map JStr (if a \<in> set xs then filter (\<lambda>x. x \<noteq> a) xs else xs @ [a])))
       \<and> propagationStopped (fst (run_listener (Watchlist_click btn) e st)) = propagationStopped e
       \<and> (btn \<in> set (querySelectorAll_class ''watchlist-btn'' st) \<longrightarrow>
            Watchlist_click btn \<in> set (click_listeners (elements (bind_watchlist_buttons st) btn)))
       \<and> \<not> propagationStopped (fst (click target st))"
proof -
  have run: "run_listener (Watchlist_click btn) e st
           = (e\<lparr>defaultPrevented := True\<rparr>,
              updateWatchlistButtons
                (st\<lparr>localStorage :=
                     saveWatchlist (map JStr (if a \<in> set xs then filter (\<lambda>x. x \<noteq> a) xs else xs @ [a]))
                       (localStorage st)\<rparr>))"
    by (simp add: assms(2) toggleWatchlist_strings_run[OF assms(1)])
  have stored: "getWatchlist (localStorage (page_of (snd (run_listener (Watchlist_click btn) e st))))
           = Inr (JArr (map JStr (if a \<in> set xs then filter (\<lambda>x. x \<noteq> a) xs else xs @ [a])))"
    using toggleWatchlist_strings[OF assms(1), of a] by (simp add: assms(2))
  have bound: "Watchlist_click btn \<in> set (click_listeners (elements (bind_watchlist_buttons st) btn))"
    if "btn \<in> set (querySelectorAll_class ''watchlist-btn'' st)"
    using that by (simp add: bind_listeners count_list_0_iff)
  show ?thesis
    using run stored bound click_propagation[of target st]
    by (simp del: run_listener.simps)
qed

text \<open>The theorem on the control of \<open>card_page\<close>, with nothing stored.\<close>

theorem watchlist_click_handler_witness:
  "fst (run_listener (Watchlist_click 1) \<lparr>defaultPrevented = False, propagationStopped = False\<rparr>
          (card_page [''watchlist-btn'']))
     = \<lparr>defaultPrevented = True, propagationStopped = False\<rparr>
   \<and> getWatchlist (localStorage (page_of (snd (run_listener (Watchlist_click 1)
          \<lparr>defaultPrevented = False, propagationStopped = False\<rparr> (card_page [''watchlist-btn''])))))
     = Inr (JArr [JStr ''a''])
   \<and> Watchlist_click 1
        \<in> set (click_listeners (elements (bind_watchlist_buttons (card_page [''watchlist-btn''])) 1))"
proof -
  let ?pg = "card_page [''watchlist-btn'']"
  have h1: "getWatchlist (localStorage ?pg) = Inr (JArr (map JStr []))"
    by (simp add: card_page_stored)
  have h2: "dataset_anime (elements ?pg 1) = Some ''a''"
    by (simp add: card_page_def blank_element_def)
  have h3: "1 \<in> set (querySelectorAll_class ''watchlist-btn'' ?pg)"
    by (simp add: card_page_buttons)
  note w = watchlist_click_handler
    [OF h1 h2, of "\<lparr>defaultPrevented = False, propagationStopped = False\<rparr>" 1]
  have a: "fst (run_listener (Watchlist_click 1) \<lparr>defaultPrevented = False, propagationStopped = False\<rparr> ?pg)
     = \<lparr>defaultPrevented = True, propagationStopped = False\<rparr>"
    using w[THEN conjunct1] by simp
  have b: "getWatchlist (localStorage (page_of (snd (run_listener (Watchlist_click 1)
          \<lparr>defaultPrevented = False, propagationStopped = False\<rparr> ?pg))))
     = Inr (JArr [JStr ''a''])"
    using w[THEN conjunct2, THEN conjunct1] by simp
  have c: "Watchlist_click 1 \<in> set (click_listeners (elements (bind_watchlist_buttons ?pg) 1))"
    using w[THEN conjunct2, THEN conjunct2, THEN conjunct2, THEN conjunct1] h3 by simp
  show ?thesis
    using a b c by (simp only: simp_thms)
qed

text \<open>
  A click on the bound control of \<open>card_page\<close>: the path of the event leads on to the
  card, and the event's propagation is not stopped.
\<close>

theorem click_bubbles_counterexample:
  "event_path (length (document_order (bind_watchlist_buttons (card_page [''watchlist-btn'']))))
      (elements (bind_watchlist_buttons (card_page [''watchlist-btn'']))) 1 = [1, 0]
   \<and> propagationStopped (fst (click 1 (bind_watchlist_buttons (card_page [''watchlist-btn'']))))
       = False"
proof -
  let ?pg = "card_page [''watchlist-btn'']"
  have "event_path 2 (elements (bind_watchlist_buttons ?pg)) 1 = event_path 2 (elements ?pg) 1"
    by (rule queries_cong(5)) (simp_all add: bind_keeps)
  also have "\<dots> = [1, 0]"
    by (simp add: eval_nat_numeral card_page_def blank_element_def)
  finally have ep: "event_path 2 (elements (bind_watchlist_buttons ?pg)) 1 = [1, 0]" .
  have len: "length (document_order (bind_watchlist_buttons ?pg)) = 2"
    by (simp add: bind_keeps card_page_def)
  show ?thesis
    unfolding len using ep click_propagation[of 1 "bind_watchlist_buttons ?pg"] by simp
qed

subsection \<open>Initialisation without the description button\<close>

text \<open>
  C3. On a page that has a control but no description button (a schedule or search
  page), the watchlist's DOMContentLoaded listener raises TypeError after it has bound
  the controls: the glyph of the control is never written and no observer is installed.
\<close>

theorem init_without_description_button:
  "watchlist_init (card_page [''watchlist-btn''])
     = Threw TypeError (bind_watchlist_buttons (card_page [''watchlist-btn'']))
   \<and> click_listeners (elements (bind_watchlist_buttons (card_page [''watchlist-btn''])) 1)
       = [Watchlist_click 1]
   \<and> textContent (elements (bind_watchlist_buttons (card_page [''watchlist-btn''])) 1) = []
   \<and> observer_target (bind_watchlist_buttons (card_page [''watchlist-btn''])) = None"
proof -
  have "click_listeners (elements (card_page [''watchlist-btn'']) 1) = []"
    "textContent (elements (card_page [''watchlist-btn'']) 1) = []"
    "observer_target (card_page [''watchlist-btn'']) = None"
    by (simp_all add: card_page_def blank_element_def)
  then show ?thesis
    using watchlist_init_no_description_button[OF card_page_no_description_button, of "[''watchlist-btn'']"]
    by (simp add: bind_listeners bind_keeps card_page_buttons)
qed

subsection \<open>Re-binding by the observer\<close>


text \<open>
  C4. The watchlist page is initialised, two cards are appended to the observed grid,
  and the observer's callback gets one record for each. The control of the first card,
  which carried no listener before, carries two click listeners after the callback, and
  one click on it toggles its title twice: the title is not in the watchlist afterwards.
\<close>

theorem observer_binds_twice:
  "observer_target (page_of (watchlist_init watchlist_page)) = Some 0
   \<and> click_listeners (elements (append_cards (page_of (watchlist_init watchlist_page))) 2) = []
   \<and> click_listeners (elements rendered_page 2) = [Watchlist_click 2, Watchlist_click 2]
   \<and> isInWatchlist (Some ''a'') (localStorage rendered_page) = Inr False
   \<and> isInWatchlist (Some ''a'') (localStorage (snd (click 2 rendered_page))) = Inr False"
proof -
  let ?e0 = "\<lparr>defaultPrevented = False, propagationStopped = False\<rparr>"
  let ?rl = "run_listeners [Watchlist_click 2, Watchlist_click 2] ?e0 rendered_page"
  have unbound: "click_listeners (elements (append_cards (page_of (watchlist_init watchlist_page))) 2) = []"
    by (simp add: append_cards_keeps initialised_fields)
  have listeners: "click_listeners (elements rendered_page 2) = [Watchlist_click 2, Watchlist_click 2]"
    "click_listeners (elements rendered_page 1) = []" "click_listeners (elements rendered_page 0) = []"
    by (simp_all add: rendered_page_run(3))
  have fields: "document_order rendered_page = [0, 1, 2, 3, 4, 5]"
    "dataset_anime (elements rendered_page 2) = Some ''a''"
    "localStorage rendered_page = localStorage watchlist_page"
    "classList (elements rendered_page n) = classList (elements (append_cards watchlist_page) n)"
    "element_id (elements rendered_page n) = element_id (elements (append_cards watchlist_page) n)" for n
    unfolding rendered_page_run(1)
    by (simp_all add: set_textContent_keeps bind_keeps append_cards_keeps initialised_fields
        watchlist_page_fields)
  have stored: "getWatchlist (localStorage rendered_page) = Inr (JArr (map JStr []))"
    by (simp add: fields watchlist_page_fields)
  have "event_path 6 (elements rendered_page) 2
          = event_path 6 (elements (append_cards watchlist_page)) 2"
    by (rule queries_cong(5))
      (simp_all add: rendered_page_run(2) fields append_cards_keeps watchlist_page_fields)
  then have ep: "event_path 6 (elements rendered_page) 2 = [2, 1, 0]"
    by (simp only: appended_queries)
  have len: "length (document_order rendered_page) = 6"
    by (simp add: fields)
  have "getWatchlist (localStorage (snd ?rl))
          = Inr (JArr (map JStr (filter (\<lambda>x. x \<noteq> ''a'') []
                                  @ (if ''a'' \<in> set [] then [''a''] else []))))"
    by (rule run_listeners_watchlist_twice(1)[OF stored fields(2)])
  then have rl1: "getWatchlist (localStorage (snd ?rl)) = Inr (JArr [])"
    by simp
  have rl2: "click_listeners (elements (snd ?rl) n) = click_listeners (elements rendered_page n)" for n
    by (rule run_listeners_watchlist_twice(2)[OF stored fields(2)])
  have rl3: "\<not> propagationStopped (fst ?rl)"
    by (rule run_listeners_watchlist_twice(3)[OF stored fields(2)]) simp
  have quiet: "click_listeners (elements (snd ?rl) n) = []" if "n \<in> set [1, 0]" for n
  proof -
    from that have "n = 1 \<or> n = 0" by simp
    then show ?thesis unfolding rl2 using listeners(2,3) by auto
  qed
  have rest: "dispatch [1, 0] (fst ?rl) (snd ?rl) = (fst ?rl, snd ?rl)"
    by (rule dispatch_no_listeners) (rule quiet)
  have "dispatch [2, 1, 0] ?e0 rendered_page = (fst ?rl, snd ?rl)"
    using rl3 rest by (simp add: listeners split_beta del: run_listeners.simps)
  then have clicked: "snd (click 2 rendered_page) = snd ?rl"
    unfolding click_def len ep by simp
  have after: "isInWatchlist (Some ''a'') (localStorage (snd (click 2 rendered_page))) = Inr False"
    unfolding clicked using isInWatchlist_array[OF rl1, of "Some ''a''"] by simp
  have before: "isInWatchlist (Some ''a'') (localStorage rendered_page) = Inr False"
    using isInWatchlist_array[of "localStorage rendered_page" "[]" "Some ''a''"] stored by simp
  show ?thesis
    using initialised_fields(8) unbound listeners(1) before after by simp
qed

subsection \<open>Relative seeks\<close>

text \<open>
  C6. With a known duration \<open>d\<close> and a playback position in \<open>[0, d]\<close>, each relative
  seek (the arrow keys with their 10 second step, the skip buttons with their 88 second
  step) succeeds and leaves \<open>currentTime\<close> in \<open>[0, d]\<close>: it moves the position by its
  step, and no further than \<open>0\<close> or \<open>d\<close>.
\<close>

theorem relative_seek_within_bounds:
  assumes "duration v = Num d" and "0 \<le> currentTime v" and "currentTime v \<le> d"
  shows "(\<exists>v'. keydown_handler ''ArrowRight'' v = Inr v' \<and> 0 \<le> currentTime v' \<and> currentTime v' \<le> d)
       \<and> (\<exists>v'. keydown_handler ''ArrowLeft'' v = Inr v' \<and> 0 \<le> currentTime v' \<and> currentTime v' \<le> d)
       \<and> (\<exists>v'. rewind_click v = Inr v' \<and> 0 \<le> currentTime v' \<and> currentTime v' \<le> d)
       \<and> (\<exists>v'. forward_click v = Inr v' \<and> 0 \<le> currentTime v' \<and> currentTime v' \<le> d)
       \<and> keydown_handler ''ArrowRight'' v = Inr (v\<lparr>currentTime := min (currentTime v + 10) d\<rparr>)
       \<and> keydown_handler ''ArrowLeft'' v = Inr (v\<lparr>currentTime := max (currentTime v - 10) 0\<rparr>)
       \<and> rewind_click v = Inr (v\<lparr>currentTime := max (currentTime v - 88) 0\<rparr>)
       \<and> forward_click v = Inr (v\<lparr>currentTime := min (currentTime v + 88) d\<rparr>)"
  using assms by (simp add: keydown_handler_def rewind_click_def forward_click_def)

text \<open>
  The theorem at \<open>currentTime = 5\<close> of a 1400 second episode; there the skip-back button
  sets \<open>currentTime\<close> to \<open>0\<close>.
\<close>

theorem relative_seek_within_bounds_witness:
  "rewind_click \<lparr>currentTime = 5, duration = Num 1400, seekBar_value = 0, timestamp = ''''\<rparr>
     = Inr \<lparr>currentTime = 0, duration = Num 1400, seekBar_value = 0, timestamp = ''''\<rparr>
   \<and> (\<exists>v'. forward_click \<lparr>currentTime = 5, duration = Num 1400, seekBar_value = 0, timestamp = ''''\<rparr> = Inr v'
          \<and> 0 \<le> currentTime v' \<and> currentTime v' \<le> 1400)"
  using relative_seek_within_bounds
    [of "\<lparr>currentTime = 5, duration = Num 1400, seekBar_value = 0, timestamp = ''''\<rparr>" 1400]
  by (simp add: rewind_click_def)

subsection \<open>The timestamp\<close>

lemma parseInt_of_nat: "parseInt (of_nat k) = k"
proof (cases "k = 0")
  case True
  then show ?thesis by (simp add: parseInt_def)
next
  case False
  then have "(1::real) \<le> of_nat k" by simp
  then have "\<not> (of_nat k :: real) < 1 / 10 ^ 6" by simp
  then show ?thesis by (simp add: parseInt_def)
qed

lemma js_rem_of_nat: "js_rem (of_nat n) 60 = of_nat (n mod 60)"
proof -
  have "\<lfloor>real n / real 60\<rfloor> = int (n div 60)"
    by (rule floor_divide_of_nat_eq)
  then have "js_rem (of_nat n) 60 = real n - 60 * real (n div 60)"
    by (simp add: js_rem_def)
  also have "\<dots> = real (n - 60 * (n div 60))"
    by (simp add: of_nat_diff)
  also have "n - 60 * (n div 60) = n mod 60"
    by (simp add: minus_mult_div_eq_mod)
  finally show ?thesis .
qed

lemma parseInt_minutes: "parseInt (js_rem (of_nat n / 60) 60) = n div 60 mod 60"
proof -
  let ?y = "js_rem (real n / 60) 60"
  have "\<lfloor>real n / real 3600\<rfloor> = int (n div 3600)"
    by (rule floor_divide_of_nat_eq)
  then have q: "\<lfloor>real n / 60 / 60\<rfloor> = int (n div 3600)"
    by simp
  have y: "?y = real (n mod 3600) / 60"
  proof -
    have "?y = real n / 60 - 60 * real (n div 3600)"
      using q by (simp add: js_rem_def)
    also have "\<dots> = (real n - 3600 * real (n div 3600)) / 60"
      by (simp add: field_simps)
    also have "real n - 3600 * real (n div 3600) = real (n - 3600 * (n div 3600))"
      by (simp add: of_nat_diff)
    also have "n - 3600 * (n div 3600) = n mod 3600"
      by (simp add: minus_mult_div_eq_mod)
    finally show ?thesis .
  qed
  have "\<lfloor>real (n mod 3600) / real 60\<rfloor> = int (n mod 3600 div 60)"
    by (rule floor_divide_of_nat_eq)
  then have fl: "nat \<lfloor>?y\<rfloor> = n mod 3600 div 60"
    by (simp add: y)
  have small: "\<not> (0 < ?y \<and> ?y < 1 / 10 ^ 6)"
  proof (cases "n mod 3600 = 0")
    case True
    then show ?thesis by (simp add: y)
  next
    case False
    then have "(1::real) \<le> real (n mod 3600)" by simp
    then have "(1::real) / 60 \<le> ?y" unfolding y by (simp add: divide_right_mono)
    then show ?thesis by simp
  qed
  have "n mod 3600 div 60 = n div 60 mod 60"
    using mod_mult2_eq[of n 60 60] by simp
  moreover have "parseInt ?y = nat \<lfloor>?y\<rfloor>"
    unfolding parseInt_def using small by (simp only: if_False)
  ultimately show ?thesis using fl by simp
qed

lemma timestamp_whole_seconds:
  assumes "\<not> falsy (duration v)" and "currentTime v = of_nat n"
  shows "timestamp (timeupdate_handler v)
           = toLocaleString2 (n div 60 mod 60) @ '':'' @ toLocaleString2 (n mod 60)"
  using assms
  by (simp add: timeupdate_handler_def parseInt_minutes js_rem_of_nat parseInt_of_nat)

lemma timestamp_125:
  "timestamp (timeupdate_handler
      \<lparr>currentTime = 125, duration = Num 1400, seekBar_value = 0, timestamp = []\<rparr>) = ''02:05''"
  by (simp add: timeupdate_handler_def js_rem_def parseInt_def toLocaleString2_def)

text \<open>
  C8. At \<open>currentTime = 0.00003\<close> (thirty microseconds into the episode) the minute
  field is \<^verbatim>\<open>parseInt\<close> of \<open>5e-7\<close>, which reads the digit 5 of the exponent notation:
  the display is \<^verbatim>\<open>05:00\<close> where minutes:seconds of the elapsed time is \<^verbatim>\<open>00:00\<close>.
\<close>

theorem timestamp_small_time:
  "timestamp (timeupdate_handler
      \<lparr>currentTime = 3 / 100000, duration = Num 1400, seekBar_value = 0, timestamp = []\<rparr>)
     = ''05:00''"
  by (simp add: timeupdate_handler_def js_rem_def parseInt_def toLocaleString2_def
      eval_nat_numeral)

subsection \<open>Suggestion fetcher\<close>

text \<open>
  C9. With an empty query the input listener clears the suggestion list and sends no
  request.
\<close>

theorem empty_query_clears:
  assumes "searchInput_value s = []" and "suggestions s = Some rows"
  shows "\<exists>s'. input_handler s = Inr s' \<and> suggestions s' = Some [] \<and> requests s' = requests s
             \<and> searchInput_value s' = searchInput_value s"
  using assms by (simp add: input_handler_def)

theorem empty_query_clears_witness:
  "\<exists>s'. input_handler \<lparr>searchInput_value = [], suggestions = Some [''Naruto''], requests = [''n'']\<rparr>
           = Inr s'
        \<and> suggestions s' = Some [] \<and> requests s' = [''n'']"
  using empty_query_clears
    [of "\<lparr>searchInput_value = [], suggestions = Some [''Naruto''], requests = [''n'']\<rparr>" "[''Naruto'']"]
  by auto

end
